theory Spec2Isabelle
  imports Complex_Main
begin

section \<open>Python strings\<close>

text \<open>
  A Python \<open>str\<close> is modelled as a \<open>string\<close>, one \<open>char\<close> for each code point, so that
  \<open>length\<close> is Python's \<open>len\<close>. Code points above 255 are outside the model; every
  literal that \<open>chatter.py\<close> compares with or sends from the functions below is ASCII.
\<close>

definition startswith :: "string \<Rightarrow> string \<Rightarrow> bool" where
  "startswith s p = (take (length p) s = p)"

definition upper_chars :: string where
  "upper_chars = ''ABCDEFGHIJKLMNOPQRSTUVWXYZ'' @
     [CHR 0xC0, CHR 0xC1, CHR 0xC2, CHR 0xC3, CHR 0xC4, CHR 0xC5, CHR 0xC6, CHR 0xC7,
      CHR 0xC8, CHR 0xC9, CHR 0xCA, CHR 0xCB, CHR 0xCC, CHR 0xCD, CHR 0xCE, CHR 0xCF,
      CHR 0xD0, CHR 0xD1, CHR 0xD2, CHR 0xD3, CHR 0xD4, CHR 0xD5, CHR 0xD6,
      CHR 0xD8, CHR 0xD9, CHR 0xDA, CHR 0xDB, CHR 0xDC, CHR 0xDD, CHR 0xDE]"

definition lower_chars :: string where
  "lower_chars = ''abcdefghijklmnopqrstuvwxyz'' @
     [CHR 0xE0, CHR 0xE1, CHR 0xE2, CHR 0xE3, CHR 0xE4, CHR 0xE5, CHR 0xE6, CHR 0xE7,
      CHR 0xE8, CHR 0xE9, CHR 0xEA, CHR 0xEB, CHR 0xEC, CHR 0xED, CHR 0xEE, CHR 0xEF,
      CHR 0xF0, CHR 0xF1, CHR 0xF2, CHR 0xF3, CHR 0xF4, CHR 0xF5, CHR 0xF6,
      CHR 0xF8, CHR 0xF9, CHR 0xFA, CHR 0xFB, CHR 0xFC, CHR 0xFD, CHR 0xFE]"

text \<open>\<open>str.lower\<close> on the code points below 256: A-Z and the Latin-1 capitals.\<close>

definition lower_char :: "char \<Rightarrow> char" where
  "lower_char c = (case map_of (zip upper_chars lower_chars) c of None \<Rightarrow> c | Some d \<Rightarrow> d)"

definition lower :: "string \<Rightarrow> string" where
  "lower s = map lower_char s"

definition digit_char :: "nat \<Rightarrow> char" where
  "digit_char d = ''0123456789'' ! d"

text \<open>\<open>str(n)\<close> of a non-negative integer, as an f-string renders it.\<close>

function str_nat :: "nat \<Rightarrow> string" where
  "str_nat n = (if n < 10 then [digit_char n] else str_nat (n div 10) @ [digit_char (n mod 10)])"
  by pat_completeness auto
termination
  by (relation "measure id") auto

declare str_nat.simps [simp del]

text \<open>\<open>s.replace(old, new)\<close>: every non-overlapping occurrence, left to right.\<close>

function str_replace :: "string \<Rightarrow> string \<Rightarrow> string \<Rightarrow> string" where
  "str_replace old new s =
     (if old = [] then new @ concat (map (\<lambda>c. c # new) s)
      else if s = [] then []
      else if startswith s old then new @ str_replace old new (drop (length old) s)
      else hd s # str_replace old new (tl s))"
  by pat_completeness auto
termination
  by (relation "measure (\<lambda>(old, new, s). length s)") auto

declare str_replace.simps [simp del]

text \<open>\<open>str.isspace\<close> on the code points below 256, which is what \<open>s.split()\<close> splits at.\<close>

definition isspace :: "char \<Rightarrow> bool" where
  "isspace c \<longleftrightarrow> c \<in> set [CHR 0x09, CHR 0x0A, CHR 0x0B, CHR 0x0C, CHR 0x0D,
      CHR 0x1C, CHR 0x1D, CHR 0x1E, CHR 0x1F, CHR 0x20, CHR 0x85, CHR 0xA0]"

fun split_from :: "string \<Rightarrow> string \<Rightarrow> string list" where
  "split_from cur [] = (if cur = [] then [] else [cur])"
| "split_from cur (c # cs) =
     (if isspace c then (if cur = [] then split_from [] cs else cur # split_from [] cs)
      else split_from (cur @ [c]) cs)"

definition split :: "string \<Rightarrow> string list" where
  "split s = split_from [] s"

fun join :: "string \<Rightarrow> string list \<Rightarrow> string" where
  "join sep [] = []"
| "join sep [x] = x"
| "join sep (x # y # ys) = x @ sep @ join sep (y # ys)"


section \<open>The collaborators of \<open>Chatter\<close>\<close>

text \<open>
  The \<open>chess.Board\<close> methods that \<open>_append_pv\<close> calls belong to the python-chess library and
  are parameters of the model, as functions on board values: \<open>turn\<close> is \<open>True\<close> for White,
  \<open>push\<close> and \<open>pop\<close> give the value of the board object after the call, and \<open>copy k\<close> gives
  the value of the new object that \<open>board.copy(stack=k)\<close> creates (\<open>stack=False\<close> is
  \<open>k = 0\<close>). They are total: the model covers the calls that return (python-chess raises
  from \<open>pop\<close> on an empty move stack and from \<open>san\<close> for a move from an empty square).
  \<open>fullmove_number\<close> is a natural number: python-chess counts from 1.
\<close>

record ('b, 'm) chess =
  turn :: "'b \<Rightarrow> bool"
  fullmove_number :: "'b \<Rightarrow> nat"
  san :: "'b \<Rightarrow> 'm \<Rightarrow> string"
  push :: "'b \<Rightarrow> 'm \<Rightarrow> 'b"
  pop :: "'b \<Rightarrow> 'b"
  copy :: "nat \<Rightarrow> 'b \<Rightarrow> 'b"

text \<open>
  The three lists of \<open>_get_random_roast\<close>, \<open>_get_random_destroy\<close> and \<open>_get_random_quote\<close>
  (7, 7 and 8 literals, some with characters above code point 255), by index.
\<close>

record tables =
  roasts :: "nat \<Rightarrow> string"
  destroys :: "nat \<Rightarrow> string"
  quotes :: "nat \<Rightarrow> string"

type_synonym addr = nat

text \<open>\<open>Chat_Message\<close>; the attribute \<open>text\<close> is the field \<open>msg_text\<close> here.\<close>

record chat_message =
  username :: string
  msg_text :: string
  room :: string

text \<open>\<open>Game_Information\<close>; the attribute \<open>id_\<close> is the field \<open>game_id\<close> here.\<close>

record game_information =
  game_id :: string
  increment_ms :: int
  initial_time_ms :: int
  white_name :: string
  black_name :: string

text \<open>
  The attributes of \<open>Lichess_Game\<close> that \<open>Chatter\<close> reads. \<open>board\<close> is a reference to a
  \<open>chess.Board\<close> object in the store; \<open>own_time\<close> is in seconds.
\<close>

record 'm lichess_game =
  board :: addr
  last_pv :: "'m list"
  last_message :: string
  own_time :: real
  is_our_turn :: bool
  is_white :: bool
  is_abortable :: bool
  engine_name :: string

text \<open>
  The state that the methods of \<open>Chatter\<close> can reach: the attributes of \<open>self\<close>, and the
  store of \<open>chess.Board\<close> objects (\<open>boards\<close>, with \<open>next_addr\<close> the first address not yet
  allocated), since \<open>pop\<close> and \<open>push\<close> change a board object in place.
\<close>

record ('b, 'm) chatter =
  username :: string
  game_info :: game_information
  lichess_game :: "'m lichess_game"
  cpu_message :: string
  draw_message :: string
  name_message :: string
  ram_message :: string
  player_greeting :: "string option"
  player_goodbye :: "string option"
  spectator_greeting :: "string option"
  spectator_goodbye :: "string option"
  print_eval_rooms :: "string set"
  boards :: "addr \<Rightarrow> 'b"
  next_addr :: addr

text \<open>What a method does to the outside: \<open>api.send_chat_message\<close> and \<open>print\<close>.\<close>

datatype effect = Send string string string | Print string


section \<open>The PV builder\<close>

definition new_board :: "'b \<Rightarrow> ('b, 'm) chatter \<Rightarrow> addr \<times> ('b, 'm) chatter" where
  "new_board v w =
     (next_addr w, w\<lparr>boards := (boards w)(next_addr w := v), next_addr := Suc (next_addr w)\<rparr>)"

text \<open>
  The \<open>for\<close> loop of \<open>_append_pv\<close> over \<open>last_pv[1:]\<close>, with the local \<open>board\<close> at address
  \<open>a\<close>: \<open>break\<close> returns \<open>final_message\<close> as it stands.
\<close>

fun pv_loop :: "('b, 'm) chess \<Rightarrow> addr \<Rightarrow> 'm list \<Rightarrow> string \<Rightarrow> string \<Rightarrow> ('b, 'm) chatter
    \<Rightarrow> string \<times> ('b, 'm) chatter" where
  "pv_loop ch a [] initial_message final_message w = (final_message, w)"
| "pv_loop ch a (move # rest) initial_message final_message w =
     (let b = boards w a;
          numbered = (if turn ch b
                      then initial_message @ '' '' @ str_nat (fullmove_number ch b) @ ''.''
                      else initial_message);
          appended = numbered @ '' '' @ san ch b move
      in if length appended > 140 then (final_message, w)
         else pv_loop ch a rest appended appended
                (w\<lparr>boards := (boards w)(a := push ch b move)\<rparr>))"

definition append_pv :: "('b, 'm) chess \<Rightarrow> ('b, 'm) chatter \<Rightarrow> string
    \<Rightarrow> string \<times> ('b, 'm) chatter" where
  "append_pv ch w initial_message =
     (if length (last_pv (lichess_game w)) < 2 then (initial_message, w)
      else
        let spaced = (if initial_message \<noteq> [] then initial_message @ '' '' else initial_message);
            (a, w1) = (if is_our_turn (lichess_game w)
                       then (let (a, w') = new_board (copy ch 1 (boards w (board (lichess_game w)))) w
                             in (a, w'\<lparr>boards := (boards w')(a := pop ch (boards w' a))\<rparr>))
                       else new_board (copy ch 0 (boards w (board (lichess_game w)))) w);
            b = boards w1 a;
            labelled = (if turn ch b then spaced @ ''PV:''
                        else spaced @ ''PV: '' @ str_nat (fullmove_number ch b) @ ''...'')
        in pv_loop ch a (tl (last_pv (lichess_game w))) labelled labelled w1)"

definition send_last_message :: "('b, 'm) chess \<Rightarrow> ('b, 'm) chatter \<Rightarrow> string
    \<Rightarrow> effect list \<times> ('b, 'm) chatter" where
  "send_last_message ch w r =
     (let replaced = str_replace ''Engine'' ''Evaluation'' (last_message (lichess_game w));
          joined = join '' '' (split replaced);
          (message, w1) = (if r = ''spectator'' then append_pv ch w joined else (joined, w))
      in ([Send (game_id (game_info w)) r message], w1))"


section \<open>Commands and the broadcast\<close>

text \<open>
  \<open>_handle_command\<close>. The \<open>match\<close> compares \<open>text[1:].lower()\<close> with string literals, so it
  is a chain of equality tests; no \<open>case\<close> matching sends nothing. \<open>rnd\<close> is the draw of
  \<open>random.choice\<close>.
\<close>

definition handle_command :: "('b, 'm) chess \<Rightarrow> tables \<Rightarrow> nat \<Rightarrow> ('b, 'm) chatter \<Rightarrow> chat_message
    \<Rightarrow> effect list \<times> ('b, 'm) chatter" where
  "handle_command ch tb rnd w m =
     (let cmd = lower (drop 1 (msg_text m)); g = game_id (game_info w); r = room m
      in if cmd = ''cpu'' then ([Send g r (cpu_message w)], w)
         else if cmd = ''draw'' then ([Send g r (draw_message w)], w)
         else if cmd = ''eval'' then send_last_message ch w r
         else if cmd = ''motor'' then ([Send g r (engine_name (lichess_game w))], w)
         else if cmd = ''name'' then ([Send g r (name_message w)], w)
         else if cmd = ''printeval'' then
           (if increment_ms (game_info w) = 0 \<and> initial_time_ms (game_info w) < 180000
            then send_last_message ch w r
            else if r \<in> print_eval_rooms w then ([], w)
            else
              let w1 = w\<lparr>print_eval_rooms := insert r (print_eval_rooms w)\<rparr>;
                  (sent, w2) = send_last_message ch w1 r
              in (Send g r ''Type !quiet to stop eval printing.'' # sent, w2))
         else if cmd = ''quiet'' then ([], w\<lparr>print_eval_rooms := print_eval_rooms w - {r}\<rparr>)
         else if cmd = ''pv'' then
           (if r = ''player'' then ([], w)
            else
              let (message, w1) = append_pv ch w []
              in ([Send g r (if message = [] then ''No modules available.'' else message)], w1))
         else if cmd = ''ram'' then ([Send g r (ram_message w)], w)
         else if cmd = ''roast'' then ([Send g r (roasts tb (rnd mod 7))], w)
         else if cmd = ''destroy'' \<or> cmd = ''troll'' then ([Send g r (destroys tb (rnd mod 7))], w)
         else if cmd = ''quotes'' then ([Send g r (quotes tb (rnd mod 8))], w)
         else if cmd = ''help'' \<or> cmd = ''commands'' then
           ([Send g r
              (if r = ''player''
               then ''Supported commands: !cpu, !draw, !eval, !motor, !name, !printeval, !ram, !roast, !destroy, !quotes''
               else ''Supported commands: !cpu, !draw, !eval, !motor, !name, !printeval, !pv, !ram, !roast, !destroy, !quotes'')],
            w)
         else ([], w))"

text \<open>The line that \<open>handle_chat_message\<close> prints for a message of another user.\<close>

definition echo_line :: "chat_message \<Rightarrow> string" where
  "echo_line m =
     (let prefix = chat_message.username m @ '' ('' @ room m @ ''): '';
          output = prefix @ msg_text m
      in if length output > 128
         then take 128 output @ [CHR 0x0A] @ replicate (length prefix) CHR '' '' @ drop 128 output
         else output)"

definition handle_chat_message :: "('b, 'm) chess \<Rightarrow> tables \<Rightarrow> nat \<Rightarrow> ('b, 'm) chatter
    \<Rightarrow> chat_message \<Rightarrow> effect list \<times> ('b, 'm) chatter" where
  "handle_chat_message ch tb rnd w m =
     (if chat_message.username m = ''lichess''
      then (if room m = ''player'' then ([Print (msg_text m)], w) else ([], w))
      else
        let echo = (if chat_message.username m \<noteq> chatter.username w then [Print (echo_line m)] else [])
        in if startswith (msg_text m) ''!''
           then (let (sent, w1) = handle_command ch tb rnd w m in (echo @ sent, w1))
           else (echo, w))"

text \<open>
  \<open>print_eval\<close>. Python does not fix the order in which it iterates over a set: \<open>order\<close> is
  the order of this iteration over \<open>print_eval_rooms\<close>, an enumeration of the set.
\<close>

fun send_to_rooms :: "('b, 'm) chess \<Rightarrow> string list \<Rightarrow> ('b, 'm) chatter
    \<Rightarrow> effect list \<times> ('b, 'm) chatter" where
  "send_to_rooms ch [] w = ([], w)"
| "send_to_rooms ch (r # rs) w =
     (let (sent, w1) = send_last_message ch w r;
          (more, w2) = send_to_rooms ch rs w1
      in (sent @ more, w2))"

definition print_eval :: "('b, 'm) chess \<Rightarrow> string list \<Rightarrow> ('b, 'm) chatter
    \<Rightarrow> effect list \<times> ('b, 'm) chatter" where
  "print_eval ch order w =
     (if increment_ms (game_info w) = 0 \<and> own_time (lichess_game w) < 30 then ([], w)
      else send_to_rooms ch order w)"

definition send_greetings :: "('b, 'm) chatter \<Rightarrow> effect list" where
  "send_greetings w =
     (case player_greeting w of None \<Rightarrow> [] | Some t \<Rightarrow>
        if t = [] then [] else [Send (game_id (game_info w)) ''player'' t]) @
     (case spectator_greeting w of None \<Rightarrow> [] | Some t \<Rightarrow>
        if t = [] then [] else [Send (game_id (game_info w)) ''spectator'' t])"

definition send_goodbyes :: "('b, 'm) chatter \<Rightarrow> effect list" where
  "send_goodbyes w =
     (if is_abortable (lichess_game w) then []
      else
        (case player_goodbye w of None \<Rightarrow> [] | Some t \<Rightarrow>
           if t = [] then [] else [Send (game_id (game_info w)) ''player'' t]) @
        (case spectator_goodbye w of None \<Rightarrow> [] | Some t \<Rightarrow>
           if t = [] then [] else [Send (game_id (game_info w)) ''spectator'' t]))"


section \<open>Templates\<close>

text \<open>
  \<open>str.format_map\<close>, as CPython reads a format string: literal text with \<open>{{\<close> and \<open>}}\<close>
  for braces, and replacement fields \<open>{name}\<close>, \<open>{name!c}\<close>, \<open>{name:spec}\<close>. A field that is
  a plain name is looked up in the mapping. What Python makes of a conversion, of a
  non-empty format spec and of an attribute or index after the name (\<open>repr\<close>, \<open>format\<close>,
  \<open>getattr\<close>) is the parameter \<open>ext\<close>, which gets the lookup, the field name, the
  conversion and the spec.
\<close>

datatype py_error = ValueError | AttributeError | IndexError | TypeError

type_synonym field_ext = "(string \<Rightarrow> string) \<Rightarrow> string \<Rightarrow> char option \<Rightarrow> string \<Rightarrow> py_error + string"

text \<open>
  The field name ends at \<open>}\<close>, \<open>:\<close> or \<open>!\<close>; after a \<open>[\<close> everything up to the next \<open>]\<close>
  belongs to the name; \<open>{\<close> in the name, and the end of the string, are errors (\<open>None\<close>).
\<close>

function scan_name :: "string \<Rightarrow> string \<Rightarrow> (string \<times> char \<times> string) option" where
  "scan_name acc [] = None"
| "scan_name acc (c # cs) =
     (if c = CHR ''{'' then None
      else if c = CHR ''[''
        then scan_name (acc @ c # takeWhile (\<lambda>x. x \<noteq> CHR '']'') cs) (dropWhile (\<lambda>x. x \<noteq> CHR '']'') cs)
      else if c = CHR ''}'' \<or> c = CHR '':'' \<or> c = CHR ''!'' then Some (acc, c, cs)
      else scan_name (acc @ [c]) cs)"
  by pat_completeness auto
termination
  by (relation "measure (\<lambda>(acc, s). length s)") (auto simp: length_dropWhile_le less_Suc_eq_le)

text \<open>The format spec ends at the \<open>}\<close> that closes the field; braces in it nest.\<close>

fun scan_spec :: "nat \<Rightarrow> string \<Rightarrow> string \<Rightarrow> (string \<times> string) option" where
  "scan_spec n acc [] = None"
| "scan_spec n acc (c # cs) =
     (if c = CHR ''{'' then scan_spec (Suc n) (acc @ [c]) cs
      else if c = CHR ''}'' then (if n = 1 then Some (acc, cs) else scan_spec (n - 1) (acc @ [c]) cs)
      else scan_spec n (acc @ [c]) cs)"

text \<open>
  A replacement field from the character after its \<open>{\<close>: the name, the conversion, the
  spec and the rest of the format string.
\<close>

definition parse_field :: "string \<Rightarrow> (string \<times> char option \<times> string \<times> string) option" where
  "parse_field s =
     (case scan_name [] s of
        None \<Rightarrow> None
      | Some (name, c, rest) \<Rightarrow>
          if c = CHR ''}'' then Some (name, None, [], rest)
          else if c = CHR ''!'' then
            (case rest of
               [] \<Rightarrow> None
             | conv # rest1 \<Rightarrow>
                 (case rest1 of
                    [] \<Rightarrow> None
                  | d # rest2 \<Rightarrow>
                      if d = CHR ''}'' then Some (name, Some conv, [], rest2)
                      else if d \<noteq> CHR '':'' then None
                      else (case scan_spec 1 [] rest2 of
                              None \<Rightarrow> None
                            | Some (spec, rest3) \<Rightarrow> Some (name, Some conv, spec, rest3))))
          else (case scan_spec 1 [] rest of
                  None \<Rightarrow> None
                | Some (spec, rest3) \<Rightarrow> Some (name, None, spec, rest3)))"

definition isdigit :: "char \<Rightarrow> bool" where
  "isdigit c \<longleftrightarrow> c \<in> set ''0123456789''"

text \<open>
  \<open>format_map\<close> has no positional arguments: an empty name and a name of decimal digits
  raise \<open>ValueError\<close>. Any other plain name is a key of the mapping.
\<close>

definition render_field :: "field_ext \<Rightarrow> (string \<Rightarrow> string) \<Rightarrow> string \<Rightarrow> char option \<Rightarrow> string
    \<Rightarrow> py_error + string" where
  "render_field ext lookup name conv spec =
     (if conv = None \<and> spec = [] \<and> CHR ''.'' \<notin> set name \<and> CHR ''['' \<notin> set name
      then (if list_all isdigit name then Inl ValueError else Inr (lookup name))
      else ext lookup name conv spec)"

definition emit :: "string \<Rightarrow> py_error + string \<Rightarrow> py_error + string" where
  "emit v r = (case r of Inl e \<Rightarrow> Inl e | Inr s \<Rightarrow> Inr (v @ s))"

lemma scan_name_shorter: "scan_name acc s = Some (name, c, rest) \<Longrightarrow> length rest < length s"
proof (induction acc s rule: scan_name.induct)
  case (1 acc)
  then show ?case by simp
next
  case (2 acc c cs)
  have "length (dropWhile (\<lambda>x. x \<noteq> CHR '']'') cs) \<le> length cs"
    by (rule length_dropWhile_le)
  with 2 show ?case
    by (auto split: if_splits)
qed

lemma scan_spec_shorter: "scan_spec n acc s = Some (spec, rest) \<Longrightarrow> length rest < length s"
  by (induction n acc s rule: scan_spec.induct) (auto split: if_splits)

lemma parse_field_shorter:
  "parse_field s = Some (name, conv, spec, rest) \<Longrightarrow> length rest < length s"
  unfolding parse_field_def
  by (auto split: option.splits prod.splits if_splits list.splits
           dest!: scan_name_shorter scan_spec_shorter)

function format_map :: "field_ext \<Rightarrow> (string \<Rightarrow> string) \<Rightarrow> string \<Rightarrow> py_error + string" where
  "format_map ext lookup [] = Inr []"
| "format_map ext lookup (c # cs) =
     (if c = CHR ''}'' then
        (case cs of
           [] \<Rightarrow> Inl ValueError
         | d # ds \<Rightarrow> if d = CHR ''}'' then emit ''}'' (format_map ext lookup ds) else Inl ValueError)
      else if c = CHR ''{'' then
        (case cs of
           [] \<Rightarrow> Inl ValueError
         | d # ds \<Rightarrow>
             if d = CHR ''{'' then emit ''{'' (format_map ext lookup ds)
             else (case parse_field cs of
                     None \<Rightarrow> Inl ValueError
                   | Some (name, conv, spec, rest) \<Rightarrow>
                       (case render_field ext lookup name conv spec of
                          Inl e \<Rightarrow> Inl e
                        | Inr v \<Rightarrow> emit v (format_map ext lookup rest))))
      else emit [c] (format_map ext lookup cs))"
  by pat_completeness auto
termination
  by (relation "measure (\<lambda>(ext, lookup, s). length s)")
     (auto dest!: parse_field_shorter)

text \<open>The \<open>defaultdict(str, {...})\<close> of \<open>_format_message\<close>: a missing key gives \<open>str()\<close>.\<close>

definition mapping :: "('b, 'm) chatter \<Rightarrow> string \<Rightarrow> string" where
  "mapping w key =
     (if key = ''opponent''
      then (if is_white (lichess_game w) then black_name (game_info w) else white_name (game_info w))
      else if key = ''me'' then chatter.username w
      else if key = ''engine'' then engine_name (lichess_game w)
      else if key = ''cpu'' then cpu_message w
      else if key = ''ram'' then ram_message w
      else [])"

definition format_message :: "field_ext \<Rightarrow> ('b, 'm) chatter \<Rightarrow> string option
    \<Rightarrow> py_error + string option" where
  "format_message ext w message =
     (case message of
        None \<Rightarrow> Inr None
      | Some t \<Rightarrow>
          if t = [] then Inr None
          else (case format_map ext (mapping w) t of Inl e \<Rightarrow> Inl e | Inr s \<Rightarrow> Inr (Some s)))"


text \<open>An \<open>ext\<close> for evaluation: it renders every such field as the empty string.\<close>

definition no_ext :: field_ext where
  "no_ext lookup name conv spec = Inr []"


section \<open>The constructor and a session\<close>

text \<open>
  The part of \<open>Config\<close> that \<open>__init__\<close> reads here. \<open>_get_cpu\<close>, \<open>_get_ram\<close> and
  \<open>_get_draw_message\<close> ask the operating system and format floats: their results are
  arguments of \<open>chatter_init\<close>.
\<close>

record config =
  version :: string
  greeting :: "string option"
  goodbye :: "string option"
  greeting_spectators :: "string option"
  goodbye_spectators :: "string option"

definition get_name_message :: "'m lichess_game \<Rightarrow> string \<Rightarrow> string" where
  "get_name_message lg v = ''I am CB-BB, and I use '' @ engine_name lg @ '' (BotLi '' @ v @ '')''"

definition chatter_init :: "field_ext \<Rightarrow> config \<Rightarrow> string \<Rightarrow> game_information \<Rightarrow> 'm lichess_game
    \<Rightarrow> string \<Rightarrow> string \<Rightarrow> string \<Rightarrow> (addr \<Rightarrow> 'b) \<Rightarrow> addr \<Rightarrow> py_error + ('b, 'm) chatter" where
  "chatter_init ext cfg name gi lg cpu draw ram store first_free =
     (let w = \<lparr>username = name, game_info = gi, lichess_game = lg, cpu_message = cpu,
                draw_message = draw, name_message = get_name_message lg (version cfg),
                ram_message = ram, player_greeting = None, player_goodbye = None,
                spectator_greeting = None, spectator_goodbye = None, print_eval_rooms = {},
                boards = store, next_addr = first_free\<rparr>
      in case format_message ext w (greeting cfg) of
           Inl e \<Rightarrow> Inl e
         | Inr pg \<Rightarrow>
        (case format_message ext w (goodbye cfg) of
           Inl e \<Rightarrow> Inl e
         | Inr pb \<Rightarrow>
        (case format_message ext w (greeting_spectators cfg) of
           Inl e \<Rightarrow> Inl e
         | Inr sg \<Rightarrow>
        (case format_message ext w (goodbye_spectators cfg) of
           Inl e \<Rightarrow> Inl e
         | Inr sb \<Rightarrow>
             Inr (w\<lparr>player_greeting := pg, player_goodbye := pb,
                     spectator_greeting := sg, spectator_goodbye := sb\<rparr>)))))"

text \<open>
  What happens to a session, one event at a time: a chat line arrives (with the draw of
  the random generator), the timer asks for a broadcast (with the order in which the set
  is iterated), or the game moves on (\<open>Lichess_Game\<close> gets new attribute values and its
  board object a new value).
\<close>

datatype ('b, 'm) event =
    Chat nat chat_message
  | Tick "string set \<Rightarrow> string list"
  | Game "'m lichess_game" 'b

fun step :: "('b, 'm) chess \<Rightarrow> tables \<Rightarrow> ('b, 'm) chatter \<Rightarrow> ('b, 'm) event
    \<Rightarrow> effect list \<times> ('b, 'm) chatter" where
  "step ch tb w (Chat rnd m) = handle_chat_message ch tb rnd w m"
| "step ch tb w (Tick iter) = print_eval ch (iter (print_eval_rooms w)) w"
| "step ch tb w (Game lg b) = ([], w\<lparr>lichess_game := lg, boards := (boards w)(board lg := b)\<rparr>)"

fun run :: "('b, 'm) chess \<Rightarrow> tables \<Rightarrow> ('b, 'm) chatter \<Rightarrow> ('b, 'm) event list
    \<Rightarrow> effect list \<times> ('b, 'm) chatter" where
  "run ch tb w [] = ([], w)"
| "run ch tb w (e # es) =
     (let (out, w1) = step ch tb w e;
          (more, w2) = run ch tb w1 es
      in (out @ more, w2))"


section \<open>The PV string as a value\<close>

text \<open>
  The position that \<open>_append_pv\<close> annotates from, the label it starts with, and the text
  that each move of the walk adds, as functions of board values. \<open>pv_loop_text\<close> below
  shows that the loop over the board object computes exactly these.
\<close>

definition pv_start :: "('b, 'm) chess \<Rightarrow> ('b, 'm) chatter \<Rightarrow> 'b" where
  "pv_start ch w =
     (if is_our_turn (lichess_game w) then pop ch (copy ch 1 (boards w (board (lichess_game w))))
      else copy ch 0 (boards w (board (lichess_game w))))"

definition pv_label :: "('b, 'm) chess \<Rightarrow> 'b \<Rightarrow> string \<Rightarrow> string" where
  "pv_label ch b initial_message =
     (if initial_message \<noteq> [] then initial_message @ '' '' else initial_message) @
     (if turn ch b then ''PV:'' else ''PV: '' @ str_nat (fullmove_number ch b) @ ''...'')"

definition pv_token :: "('b, 'm) chess \<Rightarrow> 'b \<Rightarrow> 'm \<Rightarrow> string" where
  "pv_token ch b move =
     (if turn ch b then '' '' @ str_nat (fullmove_number ch b) @ ''.'' else []) @
     '' '' @ san ch b move"

fun pv_tokens :: "('b, 'm) chess \<Rightarrow> 'b \<Rightarrow> 'm list \<Rightarrow> string list" where
  "pv_tokens ch b [] = []"
| "pv_tokens ch b (move # rest) = pv_token ch b move # pv_tokens ch (push ch b move) rest"

text \<open>How many of the tokens fit, one after the other, into 140 characters from length \<open>n\<close>.\<close>

fun fitting :: "nat \<Rightarrow> string list \<Rightarrow> nat" where
  "fitting n [] = 0"
| "fitting n (t # ts) = (if n + length t > 140 then 0 else Suc (fitting (n + length t) ts))"

definition pv_text :: "('b, 'm) chess \<Rightarrow> ('b, 'm) chatter \<Rightarrow> string \<Rightarrow> string" where
  "pv_text ch w initial_message =
     (if length (last_pv (lichess_game w)) < 2 then initial_message
      else
        let label = pv_label ch (pv_start ch w) initial_message;
            tokens = pv_tokens ch (pv_start ch w) (tl (last_pv (lichess_game w)))
        in label @ concat (take (fitting (length label) tokens) tokens))"

definition eval_text :: "('b, 'm) chess \<Rightarrow> ('b, 'm) chatter \<Rightarrow> string \<Rightarrow> string" where
  "eval_text ch w r =
     (let joined = join '' '' (split (str_replace ''Engine'' ''Evaluation'' (last_message (lichess_game w))))
      in if r = ''spectator'' then pv_text ch w joined else joined)"


section \<open>A small board, for evaluation\<close>

text \<open>
  An instance of the board interface that keeps what the PV string depends on: the side
  to move, the fullmove number and the move stack (latest move first). A move is its own
  notation. \<open>push\<close> and \<open>pop\<close> count as python-chess does: the number goes up after a
  move of Black.
\<close>

datatype toy_board = Toy bool nat "string list"

definition toy_chess :: "(toy_board, string) chess" where
  "toy_chess =
     \<lparr>turn = (\<lambda>b. case b of Toy t n st \<Rightarrow> t),
      fullmove_number = (\<lambda>b. case b of Toy t n st \<Rightarrow> n),
      san = (\<lambda>b m. m),
      push = (\<lambda>b m. case b of Toy t n st \<Rightarrow> Toy (\<not> t) (if t then n else Suc n) (m # st)),
      pop = (\<lambda>b. case b of Toy t n st \<Rightarrow> Toy (\<not> t) (if t then n - 1 else n) (tl st)),
      copy = (\<lambda>k b. case b of Toy t n st \<Rightarrow> Toy t n (take k st))\<rparr>"

definition toy_tables :: tables where
  "toy_tables = \<lparr>roasts = (\<lambda>i. ''roast''), destroys = (\<lambda>i. ''destroy''), quotes = (\<lambda>i. ''quote'')\<rparr>"

text \<open>
  A session after 1. e4 e5 2. Nf3 with the agent playing Black and to move: a five minute
  game without increment; the last search, after 1. e4, gave e5 Nf3 Nc6 Bb5 a6.
\<close>

definition toy_game :: "string lichess_game" where
  "toy_game =
     \<lparr>board = 0, last_pv = [''e5'', ''Nf3'', ''Nc6'', ''Bb5'', ''a6''],
      last_message = ''Engine:  +0.25     Depth: 20'', own_time = 45,
      is_our_turn = True, is_white = False, is_abortable = False, engine_name = ''Stockfish''\<rparr>"

definition toy_info :: game_information where
  "toy_info =
     \<lparr>game_id = ''abcd1234'', increment_ms = 0, initial_time_ms = 300000,
      white_name = ''alice'', black_name = ''bot''\<rparr>"

definition toy_session :: "(toy_board, string) chatter" where
  "toy_session =
     \<lparr>username = ''bot'', game_info = toy_info, lichess_game = toy_game, cpu_message = ''cpu'',
      draw_message = ''draw'', name_message = ''name'', ram_message = ''ram'',
      player_greeting = None, player_goodbye = None, spectator_greeting = None,
      spectator_goodbye = None, print_eval_rooms = {},
      boards = (\<lambda>a. Toy False 2 [''Nf3'', ''e5'', ''e4'']), next_addr = 1\<rparr>"

text \<open>The same session with a long line from the last search.\<close>

definition toy_long :: "(toy_board, string) chatter" where
  "toy_long =
     toy_session\<lparr>lichess_game := toy_game\<lparr>last_pv :=
       [''e5'', ''Nf3'', ''Nc6'', ''Bb5'', ''a6'', ''Ba4'', ''Nf6'', ''O-O'', ''Be7'', ''Re1'',
        ''b5'', ''Bb3'', ''d6'', ''c3'', ''O-O'', ''h3'', ''Nb8'', ''d4'', ''Nbd7'', ''c4'', ''c6'',
        ''cxb5'', ''axb5'', ''Nc3'', ''Bb7'', ''Bg5'', ''b4'', ''Nb1'', ''h6'', ''Bh4'', ''c5'']\<rparr>\<rparr>"


section \<open>The loop and the store\<close>

lemma pv_loop_step:
  "pv_loop ch a (m # ms) im fm w =
     (if 140 < length im + length (pv_token ch (boards w a) m) then (fm, w)
      else pv_loop ch a ms (im @ pv_token ch (boards w a) m) (im @ pv_token ch (boards w a) m)
             (w\<lparr>boards := (boards w)(a := push ch (boards w a) m)\<rparr>))"
  by (simp add: Let_def pv_token_def)

lemma pv_loop_text:
  "fst (pv_loop ch a ms im fm w) =
     (case fitting (length im) (pv_tokens ch (boards w a) ms) of
        0 \<Rightarrow> fm
      | Suc k \<Rightarrow> im @ concat (take (Suc k) (pv_tokens ch (boards w a) ms)))"
proof (induction ms arbitrary: im fm w)
  case Nil
  then show ?case by simp
next
  case (Cons m ms)
  define t where "t = pv_token ch (boards w a) m"
  define w' where "w' = w\<lparr>boards := (boards w)(a := push ch (boards w a) m)\<rparr>"
  define ts where "ts = pv_tokens ch (push ch (boards w a) m) ms"
  have toks: "pv_tokens ch (boards w a) (m # ms) = t # ts"
    unfolding t_def ts_def by simp
  have ts': "pv_tokens ch (boards w' a) ms = ts"
    by (simp add: w'_def ts_def)
  show ?case
  proof (cases "140 < length im + length t")
    case True
    then show ?thesis
      unfolding toks pv_loop_step t_def [symmetric] by simp
  next
    case False
    have "fst (pv_loop ch a (m # ms) im fm w) = fst (pv_loop ch a ms (im @ t) (im @ t) w')"
      unfolding pv_loop_step t_def [symmetric] w'_def [symmetric] using False by simp
    also have "\<dots> = (case fitting (length (im @ t)) ts of 0 \<Rightarrow> im @ t
                      | Suc k \<Rightarrow> (im @ t) @ concat (take (Suc k) ts))"
      unfolding Cons.IH ts' ..
    also have "\<dots> = im @ concat (take (Suc (fitting (length im + length t) ts)) (t # ts))"
      by (simp split: nat.splits)
    finally show ?thesis
      unfolding toks using False by simp
  qed
qed

lemma pv_loop_same:
  "fst (pv_loop ch a ms im im w) =
     im @ concat (take (fitting (length im) (pv_tokens ch (boards w a) ms)) (pv_tokens ch (boards w a) ms))"
  by (simp add: pv_loop_text split: nat.splits)

lemma pv_loop_frame:
  "snd (pv_loop ch a ms im fm w) =
     w\<lparr>boards := (boards w)(a := boards (snd (pv_loop ch a ms im fm w)) a)\<rparr>"
proof (induction ms arbitrary: im fm w)
  case Nil
  then show ?case by simp
next
  case (Cons m ms)
  define t where "t = pv_token ch (boards w a) m"
  define w' where "w' = w\<lparr>boards := (boards w)(a := push ch (boards w a) m)\<rparr>"
  show ?case
  proof (cases "140 < length im + length t")
    case True
    then show ?thesis
      unfolding pv_loop_step t_def [symmetric] by simp
  next
    case False
    define r where "r = snd (pv_loop ch a ms (im @ t) (im @ t) w')"
    have step: "snd (pv_loop ch a (m # ms) im fm w) = r"
      unfolding pv_loop_step t_def [symmetric] w'_def [symmetric] r_def using False by simp
    have "r = w'\<lparr>boards := (boards w')(a := boards r a)\<rparr>"
      unfolding r_def by (rule Cons.IH)
    also have "\<dots> = w\<lparr>boards := (boards w)(a := boards r a)\<rparr>"
      by (simp add: w'_def)
    finally show ?thesis
      unfolding step .
  qed
qed

lemma append_pv_unfold:
  assumes "\<not> length (last_pv (lichess_game w)) < 2"
  shows "append_pv ch w init =
           pv_loop ch (next_addr w) (tl (last_pv (lichess_game w)))
             (pv_label ch (pv_start ch w) init) (pv_label ch (pv_start ch w) init)
             (w\<lparr>boards := (boards w)(next_addr w := pv_start ch w),
                next_addr := Suc (next_addr w)\<rparr>)"
  using assms
  by (cases w) (simp add: append_pv_def pv_start_def pv_label_def new_board_def Let_def)

lemma append_pv_text: "fst (append_pv ch w init) = pv_text ch w init"
proof (cases "length (last_pv (lichess_game w)) < 2")
  case True
  then show ?thesis by (simp add: append_pv_def pv_text_def)
next
  case False
  then show ?thesis
    by (simp add: append_pv_unfold pv_loop_same pv_text_def Let_def)
qed

text \<open>
  \<open>allocated w w'\<close>: the state \<open>w'\<close> is \<open>w\<close> with new board objects, at addresses that
  were free in \<open>w\<close>; every attribute and every board object of \<open>w\<close> is as it was.
\<close>

definition allocated :: "('b, 'm) chatter \<Rightarrow> ('b, 'm) chatter \<Rightarrow> bool" where
  "allocated w w' \<longleftrightarrow>
     next_addr w \<le> next_addr w' \<and>
     w' = w\<lparr>boards := boards w', next_addr := next_addr w'\<rparr> \<and>
     (\<forall>a. a < next_addr w \<longrightarrow> boards w' a = boards w a)"

lemma allocated_refl: "allocated w w"
  by (simp add: allocated_def)

lemma allocated_trans: "allocated w w1 \<Longrightarrow> allocated w1 w2 \<Longrightarrow> allocated w w2"
  unfolding allocated_def
  apply (intro conjI)
    apply simp
   apply (metis (no_types, lifting) chatter.surjective chatter.update_convs(13) chatter.update_convs(14))
  apply auto
  done

lemma append_pv_allocated: "allocated w (snd (append_pv ch w init))"
proof (cases "length (last_pv (lichess_game w)) < 2")
  case True
  then show ?thesis by (simp add: append_pv_def allocated_refl)
next
  case False
  define w1 where "w1 = w\<lparr>boards := (boards w)(next_addr w := pv_start ch w),
                          next_addr := Suc (next_addr w)\<rparr>"
  define r where "r = snd (append_pv ch w init)"
  have "r = w1\<lparr>boards := (boards w1)(next_addr w := boards r (next_addr w))\<rparr>"
    unfolding r_def append_pv_unfold [OF False] w1_def [symmetric] by (rule pv_loop_frame)
  then have eq: "r = w\<lparr>boards := (boards w)(next_addr w := boards r (next_addr w)),
                     next_addr := Suc (next_addr w)\<rparr>"
    by (cases w) (simp add: w1_def)
  have n: "next_addr r = Suc (next_addr w)"
    by (subst eq) simp
  have b: "boards r = (boards w)(next_addr w := boards r (next_addr w))"
    by (subst eq) simp
  have "r = w\<lparr>boards := boards r, next_addr := next_addr r\<rparr>"
    using eq arg_cong2 [where f = "\<lambda>b n. w\<lparr>boards := b, next_addr := n\<rparr>", OF b n] by simp
  moreover have "boards r a = boards w a" if "a < next_addr w" for a
    using fun_cong [OF b, of a] that by simp
  ultimately have "allocated w r"
    unfolding allocated_def using n by simp
  then show ?thesis by (simp add: r_def)
qed


lemma length_pv_tokens: "length (pv_tokens ch b ms) = length ms"
  by (induction ms arbitrary: b) simp_all

lemma fitting_le: "fitting n ts \<le> length ts"
  by (induction ts arbitrary: n) auto

lemma fitting_within: "0 < j \<Longrightarrow> j \<le> fitting n ts \<Longrightarrow> n + length (concat (take j ts)) \<le> 140"
proof (induction ts arbitrary: n j)
  case Nil
  then show ?case by simp
next
  case (Cons t ts)
  from Cons.prems have fits: "\<not> 140 < n + length t"
    by (auto split: if_splits)
  from Cons.prems obtain i where j: "j = Suc i"
    by (cases j) auto
  show ?case
  proof (cases "i = 0")
    case True
    with fits j show ?thesis by simp
  next
    case False
    with Cons.prems fits j have "n + length t + length (concat (take i ts)) \<le> 140"
      by (intro Cons.IH) auto
    with j show ?thesis by simp
  qed
qed

lemma fitting_next:
  "fitting n ts < length ts \<Longrightarrow> 140 < n + length (concat (take (Suc (fitting n ts)) ts))"
proof (induction ts arbitrary: n)
  case Nil
  then show ?case by simp
next
  case (Cons t ts)
  show ?case
  proof (cases "140 < n + length t")
    case True
    then show ?thesis by simp
  next
    case False
    with Cons.prems have "fitting (n + length t) ts < length ts"
      by simp
    then have "140 < n + length t + length (concat (take (Suc (fitting (n + length t) ts)) ts))"
      by (rule Cons.IH)
    with False show ?thesis by simp
  qed
qed


section \<open>The claims about the PV builder\<close>

text \<open>
  Claim C9. With fewer than two moves in \<open>last_pv\<close>, \<open>_append_pv\<close> returns its argument as
  it is, the empty string included, and touches nothing.
\<close>

theorem append_pv_short:
  "length (last_pv (lichess_game w)) < 2 \<Longrightarrow> append_pv ch w initial_message = (initial_message, w)"
  by (simp add: append_pv_def)

theorem append_pv_short_witness:
  "length (last_pv (lichess_game (toy_session\<lparr>lichess_game := toy_game\<lparr>last_pv := [''e5'']\<rparr>\<rparr>))) < 2 \<and>
   append_pv toy_chess (toy_session\<lparr>lichess_game := toy_game\<lparr>last_pv := [''e5'']\<rparr>\<rparr>) ''Evaluation: +0.25''
     = (''Evaluation: +0.25'', toy_session\<lparr>lichess_game := toy_game\<lparr>last_pv := [''e5'']\<rparr>\<rparr>) \<and>
   append_pv toy_chess (toy_session\<lparr>lichess_game := toy_game\<lparr>last_pv := [''e5'']\<rparr>\<rparr>) []
     = ([], toy_session\<lparr>lichess_game := toy_game\<lparr>last_pv := [''e5'']\<rparr>\<rparr>)"
  using append_pv_short [of "toy_session\<lparr>lichess_game := toy_game\<lparr>last_pv := [''e5'']\<rparr>\<rparr>" toy_chess]
  by simp


text \<open>
  Claim C1, as the code has it. The claim bounds the result by 140 characters for every
  prefix, but the loop only tests the length after it has added a move: the prefix and
  the label are never tested. With at least two moves in \<open>last_pv\<close> the result is the label
  followed by the whole tokens of the first \<open>k\<close> walked moves, every state after an
  accepted move is within 140 characters, the walk stops at the first move whose token
  would pass 140 (that token is dropped whole), and the result is within 140 characters
  whenever the prefix with its label is.
\<close>

theorem append_pv_budget:
  fixes ch :: "('b, 'm) chess" and w :: "('b, 'm) chatter" and initial_message :: string
  defines "label \<equiv> pv_label ch (pv_start ch w) initial_message"
  defines "tokens \<equiv> pv_tokens ch (pv_start ch w) (tl (last_pv (lichess_game w)))"
  assumes "2 \<le> length (last_pv (lichess_game w))"
  shows "\<exists>k. k \<le> length (tl (last_pv (lichess_game w))) \<and>
           fst (append_pv ch w initial_message) = label @ concat (take k tokens) \<and>
           (\<forall>j. 0 < j \<and> j \<le> k \<longrightarrow> length (label @ concat (take j tokens)) \<le> 140) \<and>
           (k < length (tl (last_pv (lichess_game w))) \<longrightarrow>
              140 < length (label @ concat (take (Suc k) tokens))) \<and>
           (length label \<le> 140 \<longrightarrow> length (fst (append_pv ch w initial_message)) \<le> 140)"
proof -
  define k where "k = fitting (length label) tokens"
  have len: "length tokens = length (tl (last_pv (lichess_game w)))"
    unfolding tokens_def by (rule length_pv_tokens)
  have res: "fst (append_pv ch w initial_message) = label @ concat (take k tokens)"
    using assms(3) by (simp add: append_pv_text pv_text_def Let_def label_def tokens_def k_def)
  have bound: "k \<le> length (tl (last_pv (lichess_game w)))"
    unfolding k_def len [symmetric] by (rule fitting_le)
  have within: "length (label @ concat (take j tokens)) \<le> 140" if "0 < j" "j \<le> k" for j
    using fitting_within [OF that(1), of "length label" tokens] that(2) by (simp add: k_def)
  have over: "140 < length (label @ concat (take (Suc k) tokens))"
    if "k < length (tl (last_pv (lichess_game w)))"
    using fitting_next [of "length label" tokens] that by (simp add: k_def len)
  have total: "length (fst (append_pv ch w initial_message)) \<le> 140" if "length label \<le> 140"
  proof (cases "k = 0")
    case True
    with res that show ?thesis by simp
  next
    case False
    with within [of k] res show ?thesis by simp
  qed
  from bound res within over total show ?thesis
    by blast
qed

text \<open>
  On the long line the walk stops after 11... c6: the next token, \<open>12. cxb5\<close> with its
  number, would give 145 characters.
\<close>

theorem append_pv_budget_witness:
  "2 \<le> length (last_pv (lichess_game toy_long)) \<and>
   length (pv_label toy_chess (pv_start toy_chess toy_long) ''Evaluation: +0.25 Depth: 20'') \<le> 140 \<and>
   length (fst (append_pv toy_chess toy_long ''Evaluation: +0.25 Depth: 20'')) \<le> 140 \<and>
   fst (append_pv toy_chess toy_long ''Evaluation: +0.25 Depth: 20'') =
     ''Evaluation: +0.25 Depth: 20 PV: 2. Nf3 Nc6 3. Bb5 a6 4. Ba4 Nf6 5. O-O Be7 6. Re1 b5 7. Bb3 d6 8. c3 O-O 9. h3 Nb8 10. d4 Nbd7 11. c4 c6''"
proof -
  have pv: "2 \<le> length (last_pv (lichess_game toy_long))"
    by (simp add: toy_long_def)
  have label: "length (pv_label toy_chess (pv_start toy_chess toy_long) ''Evaluation: +0.25 Depth: 20'') \<le> 140"
    by (simp add: pv_label_def pv_start_def toy_long_def toy_session_def toy_game_def toy_chess_def)
  from append_pv_budget [OF pv, of toy_chess "''Evaluation: +0.25 Depth: 20''"] label
  have short: "length (fst (append_pv toy_chess toy_long ''Evaluation: +0.25 Depth: 20'')) \<le> 140"
    by blast
  have "fst (append_pv toy_chess toy_long ''Evaluation: +0.25 Depth: 20'') =
     ''Evaluation: +0.25 Depth: 20 PV: 2. Nf3 Nc6 3. Bb5 a6 4. Ba4 Nf6 5. O-O Be7 6. Re1 b5 7. Bb3 d6 8. c3 O-O 9. h3 Nb8 10. d4 Nbd7 11. c4 c6''"
    by (simp add: append_pv_def toy_long_def toy_session_def toy_game_def toy_chess_def new_board_def
          str_nat.simps digit_char_def)
  with pv label short show ?thesis by blast
qed

text \<open>
  The claim as stated fails: with a prefix of 137 characters and the five moves of
  \<open>toy_session\<close>, the prefix with \<open>'' PV:''\<close> has 141 characters, the first move does not
  fit, and these 141 characters are returned.
\<close>

theorem append_pv_over_budget:
  "fst (append_pv toy_chess toy_session (replicate 137 CHR ''x'')) = replicate 137 CHR ''x'' @ '' PV:'' \<and>
   \<not> length (fst (append_pv toy_chess toy_session (replicate 137 CHR ''x''))) \<le> 140"
  by (simp add: append_pv_def toy_session_def toy_game_def toy_chess_def new_board_def
        str_nat.simps digit_char_def)


section \<open>What the commands leave alone\<close>

lemma allocated_fields:
  assumes "allocated w w'"
  shows "game_info w' = game_info w" and "lichess_game w' = lichess_game w"
    and "print_eval_rooms w' = print_eval_rooms w" and "chatter.username w' = chatter.username w"
    and "next_addr w \<le> next_addr w'"
proof -
  from assms have eq: "w' = w\<lparr>boards := boards w', next_addr := next_addr w'\<rparr>"
    by (simp add: allocated_def)
  show "game_info w' = game_info w" by (subst eq) simp
  show "lichess_game w' = lichess_game w" by (subst eq) simp
  show "print_eval_rooms w' = print_eval_rooms w" by (subst eq) simp
  show "chatter.username w' = chatter.username w" by (subst eq) simp
  from assms show "next_addr w \<le> next_addr w'" by (simp add: allocated_def)
qed

lemma allocated_board:
  "allocated w w' \<Longrightarrow> a < next_addr w \<Longrightarrow> boards w' a = boards w a"
  by (simp add: allocated_def)

lemma pv_text_cong:
  assumes "lichess_game w' = lichess_game w"
    and "boards w' (board (lichess_game w)) = boards w (board (lichess_game w))"
  shows "pv_text ch w' t = pv_text ch w t"
proof -
  have "pv_start ch w' = pv_start ch w"
    using assms by (simp add: pv_start_def)
  with assms(1) show ?thesis
    by (simp add: pv_text_def)
qed

lemma eval_text_cong:
  assumes "lichess_game w' = lichess_game w"
    and "boards w' (board (lichess_game w)) = boards w (board (lichess_game w))"
  shows "eval_text ch w' r = eval_text ch w r"
  using assms(1) pv_text_cong [OF assms] by (simp add: eval_text_def Let_def)

lemma eval_text_allocated:
  assumes "allocated w w'" and "board (lichess_game w) < next_addr w"
  shows "eval_text ch w' r = eval_text ch w r"
  using allocated_fields(2) [OF assms(1)] allocated_board [OF assms]
  by (rule eval_text_cong)

lemma eval_text_rooms: "eval_text ch (w\<lparr>print_eval_rooms := S\<rparr>) r = eval_text ch w r"
  by (rule eval_text_cong) simp_all

lemma send_last_message_text:
  "fst (send_last_message ch w r) = [Send (game_id (game_info w)) r (eval_text ch w r)]"
  by (simp add: send_last_message_def eval_text_def Let_def append_pv_text [symmetric] split: prod.splits)

lemma send_last_message_allocated: "allocated w (snd (send_last_message ch w r))"
  using append_pv_allocated [of w ch]
  by (auto simp: send_last_message_def Let_def allocated_refl split: prod.splits)
    (metis snd_conv)


lemma append_pv_rooms: "print_eval_rooms (snd (append_pv ch w t)) = print_eval_rooms w"
  by (rule allocated_fields(3) [OF append_pv_allocated])

lemma send_last_message_rooms: "print_eval_rooms (snd (send_last_message ch w r)) = print_eval_rooms w"
  by (rule allocated_fields(3) [OF send_last_message_allocated])

lemma handle_command_eval:
  "lower (drop 1 (msg_text m)) = ''eval'' \<Longrightarrow>
   handle_command ch tb rnd w m = send_last_message ch w (room m)"
  by (simp add: handle_command_def)

lemma handle_command_pv:
  "lower (drop 1 (msg_text m)) = ''pv'' \<Longrightarrow>
   handle_command ch tb rnd w m =
     (if room m = ''player'' then ([], w)
      else ([Send (game_id (game_info w)) (room m)
               (if pv_text ch w [] = [] then ''No modules available.'' else pv_text ch w [])],
            snd (append_pv ch w [])))"
  by (simp add: handle_command_def append_pv_text [symmetric] split: prod.splits)

lemma handle_command_quiet:
  "lower (drop 1 (msg_text m)) = ''quiet'' \<Longrightarrow>
   handle_command ch tb rnd w m = ([], w\<lparr>print_eval_rooms := print_eval_rooms w - {room m}\<rparr>)"
  by (simp add: handle_command_def)

lemma handle_command_printeval:
  "lower (drop 1 (msg_text m)) = ''printeval'' \<Longrightarrow>
   handle_command ch tb rnd w m =
     (if increment_ms (game_info w) = 0 \<and> initial_time_ms (game_info w) < 180000
      then send_last_message ch w (room m)
      else if room m \<in> print_eval_rooms w then ([], w)
      else (Send (game_id (game_info w)) (room m) ''Type !quiet to stop eval printing.'' #
              fst (send_last_message ch (w\<lparr>print_eval_rooms := insert (room m) (print_eval_rooms w)\<rparr>) (room m)),
            snd (send_last_message ch (w\<lparr>print_eval_rooms := insert (room m) (print_eval_rooms w)\<rparr>) (room m))))"
  by (simp add: handle_command_def Let_def split: prod.splits)

lemma handle_command_other:
  "lower (drop 1 (msg_text m)) \<notin> {''eval'', ''printeval'', ''quiet'', ''pv''} \<Longrightarrow>
   snd (handle_command ch tb rnd w m) = w"
  by (simp add: handle_command_def Let_def)

lemma handle_command_rooms:
  "print_eval_rooms (snd (handle_command ch tb rnd w m)) =
     (if lower (drop 1 (msg_text m)) = ''printeval'' \<and>
         \<not> (increment_ms (game_info w) = 0 \<and> initial_time_ms (game_info w) < 180000)
      then insert (room m) (print_eval_rooms w)
      else if lower (drop 1 (msg_text m)) = ''quiet'' then print_eval_rooms w - {room m}
      else print_eval_rooms w)"
proof -
  consider "lower (drop 1 (msg_text m)) = ''eval''" | "lower (drop 1 (msg_text m)) = ''printeval''"
    | "lower (drop 1 (msg_text m)) = ''quiet''" | "lower (drop 1 (msg_text m)) = ''pv''"
    | "lower (drop 1 (msg_text m)) \<notin> {''eval'', ''printeval'', ''quiet'', ''pv''}"
    by blast
  then show ?thesis
  proof cases
    case 1
    then show ?thesis by (simp add: handle_command_eval send_last_message_rooms)
  next
    case 2
    then show ?thesis by (auto simp: handle_command_printeval send_last_message_rooms)
  next
    case 3
    then show ?thesis by (simp add: handle_command_quiet)
  next
    case 4
    then show ?thesis by (simp add: handle_command_pv append_pv_rooms)
  next
    case 5
    then show ?thesis by (simp add: handle_command_other)
  qed
qed

lemma handle_command_game:
  "game_info (snd (handle_command ch tb rnd w m)) = game_info w"
proof -
  consider "lower (drop 1 (msg_text m)) = ''eval''" | "lower (drop 1 (msg_text m)) = ''printeval''"
    | "lower (drop 1 (msg_text m)) = ''quiet''" | "lower (drop 1 (msg_text m)) = ''pv''"
    | "lower (drop 1 (msg_text m)) \<notin> {''eval'', ''printeval'', ''quiet'', ''pv''}"
    by blast
  then show ?thesis
  proof cases
    case 1
    then show ?thesis
      by (simp add: handle_command_eval allocated_fields(1) [OF send_last_message_allocated])
  next
    case 2
    then show ?thesis
      by (simp add: handle_command_printeval allocated_fields(1) [OF send_last_message_allocated])
  next
    case 3
    then show ?thesis by (simp add: handle_command_quiet)
  next
    case 4
    then show ?thesis by (simp add: handle_command_pv allocated_fields(1) [OF append_pv_allocated])
  next
    case 5
    then show ?thesis by (simp add: handle_command_other)
  qed
qed


text \<open>Chat lines of a spectator, for evaluation.\<close>

definition pv_msg :: chat_message where
  "pv_msg = \<lparr>chat_message.username = ''alice'', msg_text = ''!PV'', room = ''spectator''\<rparr>"

text \<open>
  Claim C10. \<open>_append_pv\<close> works on a copy: the writes of \<open>pop\<close> and \<open>push\<close> go to the address
  that \<open>copy\<close> has just allocated. When the board of the game is an allocated object, a
  call of \<open>_append_pv\<close> leaves that object, every other board object, \<open>last_pv\<close> and the
  other attributes of the game, and every attribute of the session as they were, and so
  does handling \<open>!pv\<close> or \<open>!eval\<close>, whose effect outside is at most one message sent to the
  room of the command.
\<close>

theorem pv_builder_frame:
  assumes "board (lichess_game w) < next_addr w"
  shows "allocated w (snd (append_pv ch w initial_message)) \<and>
         lichess_game (snd (append_pv ch w initial_message)) = lichess_game w \<and>
         boards (snd (append_pv ch w initial_message)) (board (lichess_game w))
           = boards w (board (lichess_game w)) \<and>
         (lower (drop 1 (msg_text m)) = ''pv'' \<or> lower (drop 1 (msg_text m)) = ''eval'' \<longrightarrow>
            allocated w (snd (handle_command ch tb rnd w m)) \<and>
            lichess_game (snd (handle_command ch tb rnd w m)) = lichess_game w \<and>
            boards (snd (handle_command ch tb rnd w m)) (board (lichess_game w))
              = boards w (board (lichess_game w)) \<and>
            print_eval_rooms (snd (handle_command ch tb rnd w m)) = print_eval_rooms w \<and>
            (fst (handle_command ch tb rnd w m) = [] \<or>
             (\<exists>t. fst (handle_command ch tb rnd w m) = [Send (game_id (game_info w)) (room m) t])))"
proof -
  have frame: "lichess_game w' = lichess_game w \<and>
      boards w' (board (lichess_game w)) = boards w (board (lichess_game w)) \<and>
      print_eval_rooms w' = print_eval_rooms w" if "allocated w w'" for w'
    using allocated_fields(2,3) [OF that] allocated_board [OF that assms] by simp
  have builder: "allocated w (snd (append_pv ch w t))" for t
    by (rule append_pv_allocated)
  have command: "allocated w (snd (handle_command ch tb rnd w m)) \<and>
      (fst (handle_command ch tb rnd w m) = [] \<or>
       (\<exists>t. fst (handle_command ch tb rnd w m) = [Send (game_id (game_info w)) (room m) t]))"
    if "lower (drop 1 (msg_text m)) = ''pv'' \<or> lower (drop 1 (msg_text m)) = ''eval''"
    using that
  proof
    assume "lower (drop 1 (msg_text m)) = ''pv''"
    then show ?thesis
      by (simp add: handle_command_pv allocated_refl append_pv_allocated)
  next
    assume "lower (drop 1 (msg_text m)) = ''eval''"
    then show ?thesis
      by (simp add: handle_command_eval send_last_message_allocated send_last_message_text)
  qed
  from frame [OF builder] builder command frame show ?thesis
    by blast
qed

theorem pv_builder_frame_witness:
  "board (lichess_game toy_session) < next_addr toy_session \<and>
   lower (drop 1 (msg_text pv_msg)) = ''pv'' \<and>
   boards (snd (handle_command toy_chess toy_tables 0 toy_session pv_msg)) (board (lichess_game toy_session))
     = Toy False 2 [''Nf3'', ''e5'', ''e4''] \<and>
   lichess_game (snd (handle_command toy_chess toy_tables 0 toy_session pv_msg)) = toy_game \<and>
   boards (snd (handle_command toy_chess toy_tables 0 toy_session pv_msg)) (next_addr toy_session)
     = Toy True 4 [''a6'', ''Bb5'', ''Nc6'', ''Nf3'']"
proof -
  have allocd: "board (lichess_game toy_session) < next_addr toy_session"
    by (simp add: toy_session_def toy_game_def)
  have cmd: "lower (drop 1 (msg_text pv_msg)) = ''pv''"
    by (simp add: pv_msg_def lower_def lower_char_def upper_chars_def lower_chars_def)
  have copy: "boards (snd (handle_command toy_chess toy_tables 0 toy_session pv_msg)) (next_addr toy_session)
     = Toy True 4 [''a6'', ''Bb5'', ''Nc6'', ''Nf3'']"
    unfolding handle_command_pv [OF cmd]
    by (simp add: pv_msg_def append_pv_def toy_session_def toy_game_def
          toy_chess_def new_board_def str_nat.simps digit_char_def)
  from pv_builder_frame [OF allocd, of toy_chess "[]" pv_msg toy_tables 0] cmd
  have "lichess_game (snd (handle_command toy_chess toy_tables 0 toy_session pv_msg)) = lichess_game toy_session"
    and "boards (snd (handle_command toy_chess toy_tables 0 toy_session pv_msg)) (board (lichess_game toy_session))
           = boards toy_session (board (lichess_game toy_session))"
    by blast+
  then have "lichess_game (snd (handle_command toy_chess toy_tables 0 toy_session pv_msg)) = toy_game"
    and "boards (snd (handle_command toy_chess toy_tables 0 toy_session pv_msg)) (board (lichess_game toy_session))
           = Toy False 2 [''Nf3'', ''e5'', ''e4'']"
    by (simp_all add: toy_session_def)
  with allocd cmd copy show ?thesis by blast
qed



section \<open>The claims about the commands\<close>

definition printeval_msg :: chat_message where
  "printeval_msg = \<lparr>chat_message.username = ''alice'', msg_text = ''!printeval'', room = ''spectator''\<rparr>"

definition quiet_msg :: chat_message where
  "quiet_msg = \<lparr>chat_message.username = ''alice'', msg_text = ''!quiet'', room = ''spectator''\<rparr>"

text \<open>The same session in a one minute game.\<close>

definition bullet_session :: "(toy_board, string) chatter" where
  "bullet_session = toy_session\<lparr>game_info := toy_info\<lparr>initial_time_ms := 60000\<rparr>\<rparr>"

lemma pv_text_label:
  assumes "2 \<le> length (last_pv (lichess_game w))"
  shows "\<exists>rest. pv_text ch w [] =
           (if turn ch (pv_start ch w) then ''PV:''
            else ''PV: '' @ str_nat (fullmove_number ch (pv_start ch w)) @ ''...'') @ rest"
  using assms by (simp add: pv_text_def pv_label_def Let_def)

lemma pv_text_short: "length (last_pv (lichess_game w)) < 2 \<Longrightarrow> pv_text ch w t = t"
  by (simp add: pv_text_def)

lemma lower_pv: "lower (drop 1 (msg_text pv_msg)) = ''pv''"
  by (simp add: pv_msg_def lower_def lower_char_def upper_chars_def lower_chars_def)

lemma lower_printeval: "lower (drop 1 (msg_text printeval_msg)) = ''printeval''"
  by (simp add: printeval_msg_def lower_def lower_char_def upper_chars_def lower_chars_def)

lemma lower_quiet: "lower (drop 1 (msg_text quiet_msg)) = ''quiet''"
  by (simp add: quiet_msg_def lower_def lower_char_def upper_chars_def lower_chars_def)

lemma toy_eval_text:
  "eval_text toy_chess toy_session ''spectator'' = ''Evaluation: +0.25 Depth: 20 PV: 2. Nf3 Nc6 3. Bb5 a6''"
  by (simp add: eval_text_def pv_text_def pv_label_def pv_start_def pv_token_def toy_session_def
        toy_game_def toy_chess_def str_nat.simps digit_char_def str_replace.simps startswith_def
        split_def isspace_def)

lemma bullet_eval_text:
  "eval_text toy_chess bullet_session ''spectator'' = eval_text toy_chess toy_session ''spectator''"
  by (rule eval_text_cong) (simp_all add: bullet_session_def)


text \<open>
  Claim C6. \<open>!pv\<close> from the player room sends nothing and changes nothing. From any other
  room it sends one message: with at least two moves in \<open>last_pv\<close> a text that starts with
  \<open>PV:\<close> when White is to move in the position annotated from, and with \<open>PV: N...\<close> for its
  fullmove number \<open>N\<close> otherwise; with fewer moves the text \<open>No modules available.\<close>
\<close>

theorem pv_command:
  assumes "lower (drop 1 (msg_text m)) = ''pv''"
  shows "(room m = ''player'' \<longrightarrow> handle_command ch tb rnd w m = ([], w)) \<and>
         (room m \<noteq> ''player'' \<and> 2 \<le> length (last_pv (lichess_game w)) \<longrightarrow>
            (\<exists>rest. fst (handle_command ch tb rnd w m) =
               [Send (game_id (game_info w)) (room m)
                  ((if turn ch (pv_start ch w) then ''PV:''
                    else ''PV: '' @ str_nat (fullmove_number ch (pv_start ch w)) @ ''...'') @ rest)])) \<and>
         (room m \<noteq> ''player'' \<and> length (last_pv (lichess_game w)) < 2 \<longrightarrow>
            fst (handle_command ch tb rnd w m) =
              [Send (game_id (game_info w)) (room m) ''No modules available.''])"
proof (intro conjI impI)
  assume "room m = ''player''"
  then show "handle_command ch tb rnd w m = ([], w)"
    by (simp add: handle_command_pv [OF assms])
next
  assume a: "room m \<noteq> ''player'' \<and> 2 \<le> length (last_pv (lichess_game w))"
  then obtain rest where rest: "pv_text ch w [] =
      (if turn ch (pv_start ch w) then ''PV:''
       else ''PV: '' @ str_nat (fullmove_number ch (pv_start ch w)) @ ''...'') @ rest"
    using pv_text_label [of w ch] by blast
  then have "pv_text ch w [] \<noteq> []"
    by (auto split: if_splits)
  with a rest have "fst (handle_command ch tb rnd w m) =
      [Send (game_id (game_info w)) (room m)
         ((if turn ch (pv_start ch w) then ''PV:''
           else ''PV: '' @ str_nat (fullmove_number ch (pv_start ch w)) @ ''...'') @ rest)]"
    by (simp add: handle_command_pv [OF assms])
  then show "\<exists>rest. fst (handle_command ch tb rnd w m) =
      [Send (game_id (game_info w)) (room m)
         ((if turn ch (pv_start ch w) then ''PV:''
           else ''PV: '' @ str_nat (fullmove_number ch (pv_start ch w)) @ ''...'') @ rest)]"
    by blast
next
  assume "room m \<noteq> ''player'' \<and> length (last_pv (lichess_game w)) < 2"
  then show "fst (handle_command ch tb rnd w m) =
      [Send (game_id (game_info w)) (room m) ''No modules available.'']"
    by (simp add: handle_command_pv [OF assms] pv_text_short)
qed

theorem pv_command_witness:
  "lower (drop 1 (msg_text pv_msg)) = ''pv'' \<and>
   handle_command toy_chess toy_tables 0 toy_session (pv_msg\<lparr>room := ''player''\<rparr>) = ([], toy_session) \<and>
   fst (handle_command toy_chess toy_tables 0 toy_session pv_msg) =
     [Send ''abcd1234'' ''spectator'' ''PV: 2. Nf3 Nc6 3. Bb5 a6''] \<and>
   fst (handle_command toy_chess toy_tables 0
          (toy_session\<lparr>lichess_game := toy_game\<lparr>last_pv := [''e5'']\<rparr>\<rparr>) pv_msg) =
     [Send ''abcd1234'' ''spectator'' ''No modules available.'']"
proof -
  have cmd': "lower (drop 1 (msg_text (pv_msg\<lparr>room := ''player''\<rparr>))) = ''pv''"
    using lower_pv by simp
  have "room (pv_msg\<lparr>room := ''player''\<rparr>) = ''player''"
    by simp
  with pv_command [OF cmd', of toy_chess toy_tables 0 toy_session]
  have player: "handle_command toy_chess toy_tables 0 toy_session (pv_msg\<lparr>room := ''player''\<rparr>) = ([], toy_session)"
    by blast
  have "room pv_msg \<noteq> ''player'' \<and>
      length (last_pv (lichess_game (toy_session\<lparr>lichess_game := toy_game\<lparr>last_pv := [''e5'']\<rparr>\<rparr>))) < 2"
    by (simp add: pv_msg_def)
  with pv_command [OF lower_pv, of toy_chess toy_tables 0
      "toy_session\<lparr>lichess_game := toy_game\<lparr>last_pv := [''e5'']\<rparr>\<rparr>"]
  have none: "fst (handle_command toy_chess toy_tables 0
          (toy_session\<lparr>lichess_game := toy_game\<lparr>last_pv := [''e5'']\<rparr>\<rparr>) pv_msg) =
     [Send ''abcd1234'' ''spectator'' ''No modules available.'']"
    by (simp add: toy_session_def toy_info_def pv_msg_def)
  have line: "fst (handle_command toy_chess toy_tables 0 toy_session pv_msg) =
     [Send ''abcd1234'' ''spectator'' ''PV: 2. Nf3 Nc6 3. Bb5 a6'']"
    unfolding handle_command_pv [OF lower_pv]
    by (simp add: pv_msg_def pv_text_def pv_label_def pv_start_def pv_token_def toy_session_def
          toy_game_def toy_info_def toy_chess_def str_nat.simps digit_char_def)
  from lower_pv player line none show ?thesis by blast
qed


text \<open>
  Claim C2. \<open>!printeval\<close> in a game without increment and with less than 180000 ms initial
  time sends the evaluation once and leaves the registry as it was. With no increment and
  180000 ms or more the room is in the registry afterwards. Whenever the game is not such
  a fast one: a room not yet in the registry is added and gets the acknowledgement and
  then the evaluation, and for a room already in it nothing is sent and nothing changes.
\<close>

theorem printeval_command:
  assumes "lower (drop 1 (msg_text m)) = ''printeval''"
  shows "(increment_ms (game_info w) = 0 \<and> initial_time_ms (game_info w) < 180000 \<longrightarrow>
            fst (handle_command ch tb rnd w m) =
              [Send (game_id (game_info w)) (room m) (eval_text ch w (room m))] \<and>
            print_eval_rooms (snd (handle_command ch tb rnd w m)) = print_eval_rooms w) \<and>
         (increment_ms (game_info w) = 0 \<and> 180000 \<le> initial_time_ms (game_info w) \<longrightarrow>
            print_eval_rooms (snd (handle_command ch tb rnd w m)) = insert (room m) (print_eval_rooms w)) \<and>
         (\<not> (increment_ms (game_info w) = 0 \<and> initial_time_ms (game_info w) < 180000) \<and>
          room m \<notin> print_eval_rooms w \<longrightarrow>
            fst (handle_command ch tb rnd w m) =
              [Send (game_id (game_info w)) (room m) ''Type !quiet to stop eval printing.'',
               Send (game_id (game_info w)) (room m) (eval_text ch w (room m))] \<and>
            print_eval_rooms (snd (handle_command ch tb rnd w m)) = insert (room m) (print_eval_rooms w)) \<and>
         (\<not> (increment_ms (game_info w) = 0 \<and> initial_time_ms (game_info w) < 180000) \<and>
          room m \<in> print_eval_rooms w \<longrightarrow>
            handle_command ch tb rnd w m = ([], w))"
proof (intro conjI impI)
  assume "increment_ms (game_info w) = 0 \<and> initial_time_ms (game_info w) < 180000"
  then show "fst (handle_command ch tb rnd w m) =
      [Send (game_id (game_info w)) (room m) (eval_text ch w (room m))]"
    by (simp add: handle_command_printeval [OF assms] send_last_message_text)
next
  assume "increment_ms (game_info w) = 0 \<and> initial_time_ms (game_info w) < 180000"
  then show "print_eval_rooms (snd (handle_command ch tb rnd w m)) = print_eval_rooms w"
    by (simp add: handle_command_printeval [OF assms] send_last_message_rooms)
next
  assume "increment_ms (game_info w) = 0 \<and> 180000 \<le> initial_time_ms (game_info w)"
  then show "print_eval_rooms (snd (handle_command ch tb rnd w m)) = insert (room m) (print_eval_rooms w)"
    by (auto simp: handle_command_printeval [OF assms] send_last_message_rooms)
next
  assume "\<not> (increment_ms (game_info w) = 0 \<and> initial_time_ms (game_info w) < 180000) \<and>
          room m \<notin> print_eval_rooms w"
  then show "fst (handle_command ch tb rnd w m) =
      [Send (game_id (game_info w)) (room m) ''Type !quiet to stop eval printing.'',
       Send (game_id (game_info w)) (room m) (eval_text ch w (room m))]"
    by (auto simp: handle_command_printeval [OF assms] send_last_message_text eval_text_rooms)
next
  assume "\<not> (increment_ms (game_info w) = 0 \<and> initial_time_ms (game_info w) < 180000) \<and>
          room m \<notin> print_eval_rooms w"
  then show "print_eval_rooms (snd (handle_command ch tb rnd w m)) = insert (room m) (print_eval_rooms w)"
    by (auto simp: handle_command_printeval [OF assms] send_last_message_rooms)
next
  assume "\<not> (increment_ms (game_info w) = 0 \<and> initial_time_ms (game_info w) < 180000) \<and>
          room m \<in> print_eval_rooms w"
  then show "handle_command ch tb rnd w m = ([], w)"
    by (auto simp: handle_command_printeval [OF assms])
qed

theorem printeval_command_witness:
  "lower (drop 1 (msg_text printeval_msg)) = ''printeval'' \<and>
   increment_ms (game_info bullet_session) = 0 \<and> initial_time_ms (game_info bullet_session) = 60000 \<and>
   fst (handle_command toy_chess toy_tables 0 bullet_session printeval_msg) =
     [Send ''abcd1234'' ''spectator'' ''Evaluation: +0.25 Depth: 20 PV: 2. Nf3 Nc6 3. Bb5 a6''] \<and>
   print_eval_rooms (snd (handle_command toy_chess toy_tables 0 bullet_session printeval_msg)) = {} \<and>
   increment_ms (game_info toy_session) = 0 \<and> initial_time_ms (game_info toy_session) = 300000 \<and>
   fst (handle_command toy_chess toy_tables 0 toy_session printeval_msg) =
     [Send ''abcd1234'' ''spectator'' ''Type !quiet to stop eval printing.'',
      Send ''abcd1234'' ''spectator'' ''Evaluation: +0.25 Depth: 20 PV: 2. Nf3 Nc6 3. Bb5 a6''] \<and>
   print_eval_rooms (snd (handle_command toy_chess toy_tables 0 toy_session printeval_msg)) = {''spectator''} \<and>
   handle_command toy_chess toy_tables 0 (toy_session\<lparr>print_eval_rooms := {''spectator''}\<rparr>) printeval_msg =
     ([], toy_session\<lparr>print_eval_rooms := {''spectator''}\<rparr>)"
proof -
  have bullet: "increment_ms (game_info bullet_session) = 0 \<and> initial_time_ms (game_info bullet_session) = 60000"
    by (simp add: bullet_session_def toy_info_def)
  have slow: "increment_ms (game_info toy_session) = 0 \<and> initial_time_ms (game_info toy_session) = 300000"
    by (simp add: toy_session_def toy_info_def)
  have ids: "game_id (game_info bullet_session) = ''abcd1234''" "game_id (game_info toy_session) = ''abcd1234''"
    "room printeval_msg = ''spectator''" "print_eval_rooms bullet_session = {}"
    "print_eval_rooms toy_session = {}"
    by (simp_all add: bullet_session_def toy_session_def toy_info_def printeval_msg_def)
  from printeval_command [OF lower_printeval, of bullet_session toy_chess toy_tables 0] bullet
  have one: "fst (handle_command toy_chess toy_tables 0 bullet_session printeval_msg) =
       [Send ''abcd1234'' ''spectator'' ''Evaluation: +0.25 Depth: 20 PV: 2. Nf3 Nc6 3. Bb5 a6'']"
    and one': "print_eval_rooms (snd (handle_command toy_chess toy_tables 0 bullet_session printeval_msg)) = {}"
    by (simp_all add: ids bullet_eval_text toy_eval_text)
  from printeval_command [OF lower_printeval, of toy_session toy_chess toy_tables 0] slow
  have two: "fst (handle_command toy_chess toy_tables 0 toy_session printeval_msg) =
       [Send ''abcd1234'' ''spectator'' ''Type !quiet to stop eval printing.'',
        Send ''abcd1234'' ''spectator'' ''Evaluation: +0.25 Depth: 20 PV: 2. Nf3 Nc6 3. Bb5 a6'']"
    and two': "print_eval_rooms (snd (handle_command toy_chess toy_tables 0 toy_session printeval_msg)) = {''spectator''}"
    by (simp_all add: ids toy_eval_text)
  from printeval_command [OF lower_printeval, of "toy_session\<lparr>print_eval_rooms := {''spectator''}\<rparr>"
      toy_chess toy_tables 0] slow
  have three: "handle_command toy_chess toy_tables 0 (toy_session\<lparr>print_eval_rooms := {''spectator''}\<rparr>) printeval_msg =
     ([], toy_session\<lparr>print_eval_rooms := {''spectator''}\<rparr>)"
    by (simp add: ids)
  from lower_printeval bullet slow one one' two two' three show ?thesis
    by blast
qed


text \<open>
  Claim C8. In a game that is not a fast one, for every room and every registry:
  \<open>!printeval\<close> adds the room; \<open>!quiet\<close> after it leaves the registry without the room; a
  second \<open>!printeval\<close> sends nothing and changes nothing; \<open>!quiet\<close> for a room that is not in
  the registry changes nothing, and so does a second \<open>!quiet\<close>.
\<close>

theorem registry_algebra:
  assumes sub: "lower (drop 1 (msg_text sub)) = ''printeval''"
    and unsub: "lower (drop 1 (msg_text unsub)) = ''quiet''"
    and same: "room unsub = room sub"
    and slow: "\<not> (increment_ms (game_info w) = 0 \<and> initial_time_ms (game_info w) < 180000)"
  shows "print_eval_rooms (snd (handle_command ch tb r1 w sub)) = insert (room sub) (print_eval_rooms w) \<and>
         room sub \<notin> print_eval_rooms
           (snd (handle_command ch tb r2 (snd (handle_command ch tb r1 w sub)) unsub)) \<and>
         handle_command ch tb r2 (snd (handle_command ch tb r1 w sub)) sub
           = ([], snd (handle_command ch tb r1 w sub)) \<and>
         (room unsub \<notin> print_eval_rooms w \<longrightarrow> handle_command ch tb r1 w unsub = ([], w)) \<and>
         handle_command ch tb r2 (snd (handle_command ch tb r1 w unsub)) unsub
           = ([], snd (handle_command ch tb r1 w unsub))"
proof -
  define w1 where "w1 = snd (handle_command ch tb r1 w sub)"
  have rooms1: "print_eval_rooms w1 = insert (room sub) (print_eval_rooms w)"
    unfolding w1_def using slow
    by (auto simp: handle_command_printeval [OF sub] send_last_message_rooms)
  have slow1: "\<not> (increment_ms (game_info w1) = 0 \<and> initial_time_ms (game_info w1) < 180000)"
    unfolding w1_def handle_command_game using slow .
  have gone: "room sub \<notin> print_eval_rooms (snd (handle_command ch tb r2 w1 unsub))"
    by (simp add: handle_command_quiet [OF unsub] same)
  have twice: "handle_command ch tb r2 w1 sub = ([], w1)"
    using slow1 rooms1 by (auto simp: handle_command_printeval [OF sub])
  have absent: "handle_command ch tb r1 w unsub = ([], w)" if "room unsub \<notin> print_eval_rooms w"
    using that by (simp add: handle_command_quiet [OF unsub])
  have again: "handle_command ch tb r2 (snd (handle_command ch tb r1 w unsub)) unsub
      = ([], snd (handle_command ch tb r1 w unsub))"
    by (simp add: handle_command_quiet [OF unsub])
  from rooms1 gone twice absent again show ?thesis
    unfolding w1_def by blast
qed

theorem registry_algebra_witness:
  "lower (drop 1 (msg_text printeval_msg)) = ''printeval'' \<and>
   lower (drop 1 (msg_text quiet_msg)) = ''quiet'' \<and>
   room quiet_msg = room printeval_msg \<and>
   print_eval_rooms (snd (handle_command toy_chess toy_tables 0 toy_session printeval_msg)) = {''spectator''} \<and>
   ''spectator'' \<notin> print_eval_rooms
     (snd (handle_command toy_chess toy_tables 0
        (snd (handle_command toy_chess toy_tables 0 toy_session printeval_msg)) quiet_msg)) \<and>
   fst (handle_command toy_chess toy_tables 0
        (snd (handle_command toy_chess toy_tables 0 toy_session printeval_msg)) printeval_msg) = [] \<and>
   handle_command toy_chess toy_tables 0 toy_session quiet_msg = ([], toy_session)"
proof -
  have same: "room quiet_msg = room printeval_msg"
    by (simp add: quiet_msg_def printeval_msg_def)
  have slow: "\<not> (increment_ms (game_info toy_session) = 0 \<and> initial_time_ms (game_info toy_session) < 180000)"
    by (simp add: toy_session_def toy_info_def)
  have facts: "room printeval_msg = ''spectator''" "print_eval_rooms toy_session = {}"
    "room quiet_msg = ''spectator''"
    by (simp_all add: printeval_msg_def quiet_msg_def toy_session_def)
  note alg = registry_algebra [OF lower_printeval lower_quiet same slow, of toy_chess toy_tables 0 0]
  from alg have a: "print_eval_rooms (snd (handle_command toy_chess toy_tables 0 toy_session printeval_msg)) = {''spectator''}"
    by (simp add: facts)
  from alg have b: "''spectator'' \<notin> print_eval_rooms
     (snd (handle_command toy_chess toy_tables 0
        (snd (handle_command toy_chess toy_tables 0 toy_session printeval_msg)) quiet_msg))"
    by (simp add: facts)
  from alg have c: "fst (handle_command toy_chess toy_tables 0
        (snd (handle_command toy_chess toy_tables 0 toy_session printeval_msg)) printeval_msg) = []"
    by simp
  from alg have d: "handle_command toy_chess toy_tables 0 toy_session quiet_msg = ([], toy_session)"
    by (simp add: facts)
  from lower_printeval lower_quiet same a b c d show ?thesis
    by blast
qed



section \<open>The broadcast\<close>

lemma send_to_rooms_step:
  "send_to_rooms ch (r # rs) w =
     (fst (send_last_message ch w r) @ fst (send_to_rooms ch rs (snd (send_last_message ch w r))),
      snd (send_to_rooms ch rs (snd (send_last_message ch w r))))"
  by (simp add: case_prod_unfold Let_def)

lemma send_to_rooms_text:
  assumes "board (lichess_game w) < next_addr w"
  shows "fst (send_to_rooms ch rs w) = map (\<lambda>r. Send (game_id (game_info w)) r (eval_text ch w r)) rs \<and>
         allocated w (snd (send_to_rooms ch rs w))"
  using assms
proof (induction rs arbitrary: w)
  case Nil
  then show ?case by (simp add: allocated_refl)
next
  case (Cons r rs)
  define w1 where "w1 = snd (send_last_message ch w r)"
  have a1: "allocated w w1"
    unfolding w1_def by (rule send_last_message_allocated)
  have b1: "board (lichess_game w1) < next_addr w1"
    using allocated_fields(2,5) [OF a1] Cons.prems by simp
  note ih = Cons.IH [OF b1]
  have texts: "eval_text ch w1 x = eval_text ch w x" for x
    by (rule eval_text_allocated [OF a1 Cons.prems])
  have "fst (send_to_rooms ch (r # rs) w) =
      Send (game_id (game_info w)) r (eval_text ch w r) # fst (send_to_rooms ch rs w1)"
    unfolding send_to_rooms_step w1_def [symmetric] by (simp add: send_last_message_text)
  also have "fst (send_to_rooms ch rs w1) = map (\<lambda>x. Send (game_id (game_info w)) x (eval_text ch w x)) rs"
    using ih by (simp add: texts allocated_fields(1) [OF a1])
  finally have first: "fst (send_to_rooms ch (r # rs) w) =
      map (\<lambda>x. Send (game_id (game_info w)) x (eval_text ch w x)) (r # rs)"
    by simp
  have "allocated w (snd (send_to_rooms ch rs w1))"
    using a1 ih by (blast intro: allocated_trans)
  then have "allocated w (snd (send_to_rooms ch (r # rs) w))"
    unfolding send_to_rooms_step w1_def [symmetric] by simp
  with first show ?case by blast
qed

text \<open>
  Claim C5. \<open>order\<close> is the order in which \<open>print_eval\<close> iterates over the registry. With no
  increment and less than 30 seconds of own time nothing is sent and nothing changes.
  Otherwise every room of the registry gets, once, the evaluation message as
  \<open>_send_last_message\<close> renders it for that room from the state at the tick, and the
  registry stays as it is. \<open>own_time\<close> is a real number here: every finite float is one,
  and the comparison with 30.0 is exact.
\<close>

theorem print_eval_broadcast:
  assumes "board (lichess_game w) < next_addr w"
    and "set order = print_eval_rooms w" and "distinct order"
  shows "(increment_ms (game_info w) = 0 \<and> own_time (lichess_game w) < 30 \<longrightarrow>
            print_eval ch order w = ([], w)) \<and>
         (\<not> (increment_ms (game_info w) = 0 \<and> own_time (lichess_game w) < 30) \<longrightarrow>
            fst (print_eval ch order w) =
              map (\<lambda>r. Send (game_id (game_info w)) r (eval_text ch w r)) order \<and>
            (\<forall>r \<in> print_eval_rooms w.
               Send (game_id (game_info w)) r (eval_text ch w r) \<in> set (fst (print_eval ch order w))) \<and>
            length (fst (print_eval ch order w)) = card (print_eval_rooms w) \<and>
            print_eval_rooms (snd (print_eval ch order w)) = print_eval_rooms w)"
proof (intro conjI impI)
  assume "increment_ms (game_info w) = 0 \<and> own_time (lichess_game w) < 30"
  then show "print_eval ch order w = ([], w)"
    by (simp add: print_eval_def)
next
  assume go: "\<not> (increment_ms (game_info w) = 0 \<and> own_time (lichess_game w) < 30)"
  then have pe: "print_eval ch order w = send_to_rooms ch order w"
    by (auto simp: print_eval_def)
  note sends = send_to_rooms_text [OF assms(1), of ch order]
  show all: "fst (print_eval ch order w) =
      map (\<lambda>r. Send (game_id (game_info w)) r (eval_text ch w r)) order"
    unfolding pe using sends by blast
  show "\<forall>r \<in> print_eval_rooms w.
      Send (game_id (game_info w)) r (eval_text ch w r) \<in> set (fst (print_eval ch order w))"
    unfolding all using assms(2) by auto
  show "length (fst (print_eval ch order w)) = card (print_eval_rooms w)"
    unfolding all using assms(2,3) distinct_card [of order] by simp
  show "print_eval_rooms (snd (print_eval ch order w)) = print_eval_rooms w"
    unfolding pe using sends allocated_fields(3) by blast
qed

text \<open>The toy session with both rooms subscribed, and the same with ten seconds left.\<close>

definition both_rooms :: "(toy_board, string) chatter" where
  "both_rooms = toy_session\<lparr>print_eval_rooms := {''player'', ''spectator''}\<rparr>"

definition low_on_time :: "(toy_board, string) chatter" where
  "low_on_time = both_rooms\<lparr>lichess_game := toy_game\<lparr>own_time := 10\<rparr>\<rparr>"

theorem print_eval_broadcast_witness:
  "board (lichess_game both_rooms) < next_addr both_rooms \<and>
   set [''spectator'', ''player''] = print_eval_rooms both_rooms \<and>
   distinct [''spectator'', ''player''] \<and>
   increment_ms (game_info low_on_time) = 0 \<and> own_time (lichess_game low_on_time) = 10 \<and>
   print_eval toy_chess [''spectator'', ''player''] low_on_time = ([], low_on_time) \<and>
   increment_ms (game_info both_rooms) = 0 \<and> own_time (lichess_game both_rooms) = 45 \<and>
   fst (print_eval toy_chess [''spectator'', ''player''] both_rooms) =
     [Send ''abcd1234'' ''spectator'' ''Evaluation: +0.25 Depth: 20 PV: 2. Nf3 Nc6 3. Bb5 a6'',
      Send ''abcd1234'' ''player'' ''Evaluation: +0.25 Depth: 20'']"
proof -
  have wf: "board (lichess_game both_rooms) < next_addr both_rooms"
    "board (lichess_game low_on_time) < next_addr low_on_time"
    by (simp_all add: low_on_time_def both_rooms_def toy_session_def toy_game_def)
  have order: "set [''spectator'', ''player''] = print_eval_rooms both_rooms"
    "set [''spectator'', ''player''] = print_eval_rooms low_on_time"
    "distinct [''spectator'', ''player'']"
    by (auto simp: low_on_time_def both_rooms_def)
  have low: "increment_ms (game_info low_on_time) = 0 \<and> own_time (lichess_game low_on_time) = 10"
    by (simp add: low_on_time_def both_rooms_def toy_session_def toy_info_def toy_game_def)
  have ok: "increment_ms (game_info both_rooms) = 0 \<and> own_time (lichess_game both_rooms) = 45"
    by (simp add: both_rooms_def toy_session_def toy_info_def toy_game_def)
  have texts: "eval_text toy_chess both_rooms ''spectator'' = ''Evaluation: +0.25 Depth: 20 PV: 2. Nf3 Nc6 3. Bb5 a6''"
    "eval_text toy_chess both_rooms ''player'' = ''Evaluation: +0.25 Depth: 20''"
    "game_id (game_info both_rooms) = ''abcd1234''"
    by (simp_all add: eval_text_def pv_text_def pv_label_def pv_start_def pv_token_def both_rooms_def
          toy_session_def toy_game_def toy_info_def toy_chess_def str_nat.simps digit_char_def
          str_replace.simps startswith_def split_def isspace_def)
  from print_eval_broadcast [OF wf(2) order(2,3), of toy_chess] low
  have quiet: "print_eval toy_chess [''spectator'', ''player''] low_on_time = ([], low_on_time)"
    by simp
  from print_eval_broadcast [OF wf(1) order(1,3), of toy_chess] ok
  have sent: "fst (print_eval toy_chess [''spectator'', ''player''] both_rooms) =
     [Send ''abcd1234'' ''spectator'' ''Evaluation: +0.25 Depth: 20 PV: 2. Nf3 Nc6 3. Bb5 a6'',
      Send ''abcd1234'' ''player'' ''Evaluation: +0.25 Depth: 20'']"
    by (simp add: texts)
  from wf(1) order(1,3) low quiet ok sent show ?thesis
    by blast
qed


section \<open>Which lines are commands\<close>

text \<open>The messages among the effects, in order.\<close>

fun sends :: "effect list \<Rightarrow> (string \<times> string \<times> string) list" where
  "sends [] = []"
| "sends (Send g r t # es) = (g, r, t) # sends es"
| "sends (Print t # es) = sends es"

text \<open>
  Claim C7. A line of the user \<open>lichess\<close> is printed when its room is \<open>player\<close> and does
  nothing else: no message is sent and the state is unchanged, also when its text starts
  with \<open>!\<close>. For every other author, the agent included, the command is handled exactly
  when the text starts with \<open>!\<close>: the messages sent and the new state are then those of
  \<open>_handle_command\<close>, and otherwise nothing is sent and nothing changes. Only the printed
  echo depends on who the author is.
\<close>

theorem chat_message_dispatch:
  "(chat_message.username m = ''lichess'' \<longrightarrow>
      handle_chat_message ch tb rnd w m = ((if room m = ''player'' then [Print (msg_text m)] else []), w) \<and>
      sends (fst (handle_chat_message ch tb rnd w m)) = []) \<and>
   (chat_message.username m \<noteq> ''lichess'' \<and> startswith (msg_text m) ''!'' \<longrightarrow>
      handle_chat_message ch tb rnd w m =
        ((if chat_message.username m \<noteq> chatter.username w then [Print (echo_line m)] else []) @
           fst (handle_command ch tb rnd w m),
         snd (handle_command ch tb rnd w m)) \<and>
      sends (fst (handle_chat_message ch tb rnd w m)) = sends (fst (handle_command ch tb rnd w m))) \<and>
   (chat_message.username m \<noteq> ''lichess'' \<and> \<not> startswith (msg_text m) ''!'' \<longrightarrow>
      handle_chat_message ch tb rnd w m =
        ((if chat_message.username m \<noteq> chatter.username w then [Print (echo_line m)] else []), w) \<and>
      sends (fst (handle_chat_message ch tb rnd w m)) = [])"
proof (cases "chat_message.username m = ''lichess''")
  case True
  then show ?thesis
    by (simp add: handle_chat_message_def)
next
  case False
  define echo where
    "echo = (if chat_message.username m \<noteq> chatter.username w then [Print (echo_line m)] else [])"
  have quiet: "sends (echo @ es) = sends es" for es
    by (simp add: echo_def)
  show ?thesis
  proof (cases "startswith (msg_text m) ''!''")
    case True
    with False have "handle_chat_message ch tb rnd w m =
        (echo @ fst (handle_command ch tb rnd w m), snd (handle_command ch tb rnd w m))"
      by (simp add: handle_chat_message_def Let_def case_prod_unfold echo_def)
    with False True quiet show ?thesis
      by (simp add: echo_def [symmetric])
  next
    case no_marker: False
    with False have "handle_chat_message ch tb rnd w m = (echo, w)"
      by (simp add: handle_chat_message_def Let_def echo_def)
    with False no_marker quiet [of "[]"] show ?thesis
      by (simp add: echo_def [symmetric])
  qed
qed

definition cpu_msg :: "string \<Rightarrow> string \<Rightarrow> chat_message" where
  "cpu_msg author r = \<lparr>chat_message.username = author, msg_text = ''!cpu'', room = r\<rparr>"

theorem chat_message_dispatch_witness:
  "handle_chat_message toy_chess toy_tables 0 toy_session (cpu_msg ''lichess'' ''player'')
     = ([Print ''!cpu''], toy_session) \<and>
   handle_chat_message toy_chess toy_tables 0 toy_session (cpu_msg ''lichess'' ''spectator'')
     = ([], toy_session) \<and>
   handle_chat_message toy_chess toy_tables 0 toy_session (cpu_msg ''bot'' ''spectator'')
     = ([Send ''abcd1234'' ''spectator'' ''cpu''], toy_session) \<and>
   handle_chat_message toy_chess toy_tables 0 toy_session (cpu_msg ''alice'' ''spectator'')
     = ([Print ''alice (spectator): !cpu'', Send ''abcd1234'' ''spectator'' ''cpu''], toy_session) \<and>
   handle_chat_message toy_chess toy_tables 0 toy_session
       \<lparr>chat_message.username = ''alice'', msg_text = ''cpu!'', room = ''spectator''\<rparr>
     = ([Print ''alice (spectator): cpu!''], toy_session)"
proof -
  have cmd: "handle_command toy_chess toy_tables 0 toy_session (cpu_msg a r)
      = ([Send ''abcd1234'' r ''cpu''], toy_session)" for a r
    by (simp add: handle_command_def cpu_msg_def lower_def lower_char_def upper_chars_def
          lower_chars_def toy_session_def toy_info_def Let_def)
  have who: "chatter.username toy_session = ''bot''"
    by (simp add: toy_session_def)
  from chat_message_dispatch [of "cpu_msg ''lichess'' ''player''" toy_chess toy_tables 0 toy_session]
  have a: "handle_chat_message toy_chess toy_tables 0 toy_session (cpu_msg ''lichess'' ''player'')
     = ([Print ''!cpu''], toy_session)"
    by (simp add: cpu_msg_def)
  from chat_message_dispatch [of "cpu_msg ''lichess'' ''spectator''" toy_chess toy_tables 0 toy_session]
  have b: "handle_chat_message toy_chess toy_tables 0 toy_session (cpu_msg ''lichess'' ''spectator'')
     = ([], toy_session)"
    by (simp add: cpu_msg_def)
  have c0: "chat_message.username (cpu_msg ''bot'' ''spectator'') \<noteq> ''lichess'' \<and>
      startswith (msg_text (cpu_msg ''bot'' ''spectator'')) ''!''"
    by (simp add: cpu_msg_def startswith_def)
  from chat_message_dispatch [of "cpu_msg ''bot'' ''spectator''" toy_chess toy_tables 0 toy_session] c0
  have c: "handle_chat_message toy_chess toy_tables 0 toy_session (cpu_msg ''bot'' ''spectator'')
     = ([Send ''abcd1234'' ''spectator'' ''cpu''], toy_session)"
    by (simp add: cmd who) (simp add: cpu_msg_def)
  have d0: "chat_message.username (cpu_msg ''alice'' ''spectator'') \<noteq> ''lichess'' \<and>
      startswith (msg_text (cpu_msg ''alice'' ''spectator'')) ''!''"
    by (simp add: cpu_msg_def startswith_def)
  from chat_message_dispatch [of "cpu_msg ''alice'' ''spectator''" toy_chess toy_tables 0 toy_session] d0
  have d: "handle_chat_message toy_chess toy_tables 0 toy_session (cpu_msg ''alice'' ''spectator'')
     = ([Print ''alice (spectator): !cpu'', Send ''abcd1234'' ''spectator'' ''cpu''], toy_session)"
    by (simp add: cmd who) (simp add: cpu_msg_def echo_line_def)
  from chat_message_dispatch [of "\<lparr>chat_message.username = ''alice'', msg_text = ''cpu!'', room = ''spectator''\<rparr>"
      toy_chess toy_tables 0 toy_session]
  have e: "handle_chat_message toy_chess toy_tables 0 toy_session
       \<lparr>chat_message.username = ''alice'', msg_text = ''cpu!'', room = ''spectator''\<rparr>
     = ([Print ''alice (spectator): cpu!''], toy_session)"
    by (simp add: who startswith_def echo_line_def)
  from a b c d e show ?thesis by blast
qed


section \<open>The registry over a session\<close>

text \<open>A chat line that reaches the \<open>printeval\<close> branch of \<open>_handle_command\<close>.\<close>

definition issues_printeval :: "chat_message \<Rightarrow> bool" where
  "issues_printeval m \<longleftrightarrow>
     chat_message.username m \<noteq> ''lichess'' \<and> startswith (msg_text m) ''!'' \<and>
     lower (drop 1 (msg_text m)) = ''printeval''"

lemma chatter_init_rooms:
  "chatter_init ext cfg name gi lg cpu draw ram store first_free = Inr w0 \<Longrightarrow> print_eval_rooms w0 = {}"
  by (auto simp: chatter_init_def Let_def split: sum.splits)

lemma send_to_rooms_allocated: "allocated w (snd (send_to_rooms ch rs w))"
proof (induction rs arbitrary: w)
  case Nil
  then show ?case by (simp add: allocated_refl)
next
  case (Cons r rs)
  have "allocated w (snd (send_last_message ch w r))"
    by (rule send_last_message_allocated)
  then have "allocated w (snd (send_to_rooms ch rs (snd (send_last_message ch w r))))"
    using Cons.IH by (rule allocated_trans)
  then show ?case
    unfolding send_to_rooms_step by simp
qed

lemma print_eval_rooms_kept: "print_eval_rooms (snd (print_eval ch order w)) = print_eval_rooms w"
  by (simp add: print_eval_def allocated_fields(3) [OF send_to_rooms_allocated])

lemma handle_chat_message_rooms:
  assumes "r \<in> print_eval_rooms (snd (handle_chat_message ch tb rnd w m))"
  shows "r \<in> print_eval_rooms w \<or> (room m = r \<and> issues_printeval m)"
proof (cases "chat_message.username m \<noteq> ''lichess'' \<and> startswith (msg_text m) ''!''")
  case True
  then have "snd (handle_chat_message ch tb rnd w m) = snd (handle_command ch tb rnd w m)"
    by (simp add: handle_chat_message_def Let_def case_prod_unfold)
  with assms have "r \<in> print_eval_rooms (snd (handle_command ch tb rnd w m))"
    by simp
  then show ?thesis
    using True by (auto simp: handle_command_rooms issues_printeval_def split: if_splits)
next
  case False
  then have "snd (handle_chat_message ch tb rnd w m) = w"
    by (auto simp: handle_chat_message_def Let_def)
  with assms show ?thesis by simp
qed

lemma step_rooms:
  assumes "r \<in> print_eval_rooms (snd (step ch tb w e))"
  shows "r \<in> print_eval_rooms w \<or> (\<exists>rnd m. e = Chat rnd m \<and> room m = r \<and> issues_printeval m)"
proof (cases e)
  case (Chat rnd m)
  with assms handle_chat_message_rooms [of r ch tb rnd w m] show ?thesis by auto
next
  case (Tick iter)
  with assms show ?thesis by (simp add: print_eval_rooms_kept)
next
  case (Game lg b)
  with assms show ?thesis by simp
qed

lemma run_step:
  "run ch tb w (e # es) =
     (fst (step ch tb w e) @ fst (run ch tb (snd (step ch tb w e)) es),
      snd (run ch tb (snd (step ch tb w e)) es))"
  by (simp add: case_prod_unfold Let_def)

lemma run_rooms:
  "r \<in> print_eval_rooms (snd (run ch tb w evs)) \<Longrightarrow>
   r \<in> print_eval_rooms w \<or> (\<exists>rnd m. Chat rnd m \<in> set evs \<and> room m = r \<and> issues_printeval m)"
proof (induction evs arbitrary: w)
  case Nil
  then show ?case by simp
next
  case (Cons e es)
  from Cons.prems have "r \<in> print_eval_rooms (snd (run ch tb (snd (step ch tb w e)) es))"
    unfolding run_step by simp
  then have "r \<in> print_eval_rooms (snd (step ch tb w e)) \<or>
      (\<exists>rnd m. Chat rnd m \<in> set es \<and> room m = r \<and> issues_printeval m)"
    by (rule Cons.IH)
  then show ?case
  proof
    assume "r \<in> print_eval_rooms (snd (step ch tb w e))"
    then have "r \<in> print_eval_rooms w \<or> (\<exists>rnd m. e = Chat rnd m \<and> room m = r \<and> issues_printeval m)"
      by (rule step_rooms)
    then show ?thesis by auto
  next
    assume "\<exists>rnd m. Chat rnd m \<in> set es \<and> room m = r \<and> issues_printeval m"
    then show ?thesis by auto
  qed
qed

text \<open>
  Claim C4, as the code has it. From the state that \<open>__init__\<close> builds, after any sequence
  of chat lines, ticks and changes of the game, every room in the registry is the room of
  a chat line of the sequence that issued \<open>!printeval\<close> (text with the marker, command
  \<open>printeval\<close> in any case, author other than \<open>lichess\<close>). A room is a string, as
  \<open>set[str]\<close> says: the registry holds only \<open>player\<close> and \<open>spectator\<close> when every chat line
  of the sequence comes from one of these two rooms.
\<close>

theorem registry_invariant:
  assumes "chatter_init ext cfg name gi lg cpu draw ram store first_free = Inr w0"
  shows "(\<forall>r \<in> print_eval_rooms (snd (run ch tb w0 evs)).
            \<exists>rnd m. Chat rnd m \<in> set evs \<and> room m = r \<and> issues_printeval m) \<and>
         ((\<forall>rnd m. Chat rnd m \<in> set evs \<longrightarrow> room m = ''player'' \<or> room m = ''spectator'') \<longrightarrow>
            print_eval_rooms (snd (run ch tb w0 evs)) \<subseteq> {''player'', ''spectator''})"
proof -
  have empty: "print_eval_rooms w0 = {}"
    using assms by (rule chatter_init_rooms)
  have issued: "\<exists>rnd m. Chat rnd m \<in> set evs \<and> room m = r \<and> issues_printeval m"
    if "r \<in> print_eval_rooms (snd (run ch tb w0 evs))" for r
    using run_rooms [OF that] empty by simp
  then show ?thesis
    by blast
qed

definition toy_config :: config where
  "toy_config =
     \<lparr>version = ''v1'', greeting = Some ''Good luck {opponent}! I am {me}.'',
      goodbye = Some ''Good game {opponent} {unknown}'', greeting_spectators = None,
      goodbye_spectators = Some []\<rparr>"

definition toy_started :: "(toy_board, string) chatter" where
  "toy_started =
     toy_session\<lparr>name_message := ''I am CB-BB, and I use Stockfish (BotLi v1)'',
       player_greeting := Some ''Good luck alice! I am bot.'',
       player_goodbye := Some ''Good game alice ''\<rparr>"

definition lobby_msg :: chat_message where
  "lobby_msg = \<lparr>chat_message.username = ''alice'', msg_text = ''!printeval'', room = ''lobby''\<rparr>"

lemma toy_started_init:
  "chatter_init no_ext toy_config ''bot'' toy_info toy_game ''cpu'' ''draw'' ''ram''
     (\<lambda>a. Toy False 2 [''Nf3'', ''e5'', ''e4'']) 1 = Inr toy_started"
  by (simp add: chatter_init_def toy_config_def toy_started_def toy_session_def get_name_message_def
        format_message_def parse_field_def render_field_def isdigit_def emit_def mapping_def
        toy_game_def toy_info_def)

lemma toy_run:
  "print_eval_rooms (snd (run toy_chess toy_tables toy_started
      [Chat 0 printeval_msg, Tick (\<lambda>S. [''spectator'']), Chat 0 (pv_msg\<lparr>room := ''player''\<rparr>)]))
   = {''spectator''}"
  by code_simp

theorem registry_invariant_witness:
  "chatter_init no_ext toy_config ''bot'' toy_info toy_game ''cpu'' ''draw'' ''ram''
     (\<lambda>a. Toy False 2 [''Nf3'', ''e5'', ''e4'']) 1 = Inr toy_started \<and>
   print_eval_rooms (snd (run toy_chess toy_tables toy_started
      [Chat 0 printeval_msg, Tick (\<lambda>S. [''spectator'']), Chat 0 (pv_msg\<lparr>room := ''player''\<rparr>)]))
     \<subseteq> {''player'', ''spectator''} \<and>
   print_eval_rooms (snd (run toy_chess toy_tables toy_started
      [Chat 0 printeval_msg, Tick (\<lambda>S. [''spectator'']), Chat 0 (pv_msg\<lparr>room := ''player''\<rparr>)]))
     = {''spectator''} \<and>
   issues_printeval printeval_msg"
proof -
  have rooms: "\<forall>rnd m. Chat rnd m \<in> set
      [Chat 0 printeval_msg, Tick (\<lambda>S. [''spectator'']), Chat 0 (pv_msg\<lparr>room := ''player''\<rparr>)]
      \<longrightarrow> room m = ''player'' \<or> room m = ''spectator''"
    by (auto simp: printeval_msg_def)
  from registry_invariant [OF toy_started_init, of toy_chess toy_tables
      "[Chat 0 printeval_msg, Tick (\<lambda>S. [''spectator'']), Chat 0 (pv_msg\<lparr>room := ''player''\<rparr>)]"] rooms
  have sub: "print_eval_rooms (snd (run toy_chess toy_tables toy_started
      [Chat 0 printeval_msg, Tick (\<lambda>S. [''spectator'']), Chat 0 (pv_msg\<lparr>room := ''player''\<rparr>)]))
     \<subseteq> {''player'', ''spectator''}"
    by blast
  have issued: "issues_printeval printeval_msg"
    by code_simp
  from toy_started_init sub toy_run issued show ?thesis
    by blast
qed

text \<open>
  The claim as stated fails in its second half: the code stores whatever string the chat
  line carries as its room.
\<close>

theorem registry_free_string:
  "print_eval_rooms (snd (run toy_chess toy_tables toy_started [Chat 0 lobby_msg])) = {''lobby''} \<and>
   \<not> print_eval_rooms (snd (run toy_chess toy_tables toy_started [Chat 0 lobby_msg]))
       \<subseteq> {''player'', ''spectator''}"
  by code_simp


section \<open>Templates with unknown names\<close>

text \<open>
  Templates by their parts: literal text without braces, the two escapes, and a field with
  a plain name (not empty, not a decimal number, none of the characters that end or
  structure a field name).
\<close>

datatype segment = Lit string | Open_brace | Close_brace | Field string

definition plain_name :: "string \<Rightarrow> bool" where
  "plain_name n \<longleftrightarrow> \<not> list_all isdigit n \<and> set n \<inter> set ''{}[.!:'' = {}"

fun well_formed :: "segment \<Rightarrow> bool" where
  "well_formed (Lit s) \<longleftrightarrow> CHR ''{'' \<notin> set s \<and> CHR ''}'' \<notin> set s"
| "well_formed Open_brace \<longleftrightarrow> True"
| "well_formed Close_brace \<longleftrightarrow> True"
| "well_formed (Field n) \<longleftrightarrow> plain_name n"

fun seg_source :: "segment \<Rightarrow> string" where
  "seg_source (Lit s) = s"
| "seg_source Open_brace = ''{{''"
| "seg_source Close_brace = ''}}''"
| "seg_source (Field n) = ''{'' @ n @ ''}''"

fun seg_value :: "(string \<Rightarrow> string) \<Rightarrow> segment \<Rightarrow> string" where
  "seg_value lookup (Lit s) = s"
| "seg_value lookup Open_brace = ''{''"
| "seg_value lookup Close_brace = ''}''"
| "seg_value lookup (Field n) = lookup n"

definition template :: "segment list \<Rightarrow> string" where
  "template segs = concat (map seg_source segs)"

definition known_names :: "string list" where
  "known_names = [''opponent'', ''me'', ''engine'', ''cpu'', ''ram'']"

fun unknown :: "segment \<Rightarrow> bool" where
  "unknown (Field n) \<longleftrightarrow> n \<notin> set known_names"
| "unknown seg \<longleftrightarrow> True"

lemma emit_simps: "emit [] r = r" "emit v (Inr s) = Inr (v @ s)" "emit v (emit u r) = emit (v @ u) r"
  by (simp_all add: emit_def split: sum.splits)

lemma format_map_lit:
  "CHR ''{'' \<notin> set s \<Longrightarrow> CHR ''}'' \<notin> set s \<Longrightarrow>
   format_map ext lookup (s @ tail) = emit s (format_map ext lookup tail)"
  by (induction s) (auto simp: emit_simps)

lemma scan_name_plain:
  "set n \<inter> set ''{}[.!:'' = {} \<Longrightarrow> scan_name acc (n @ CHR ''}'' # tail) = Some (acc @ n, CHR ''}'', tail)"
  by (induction n arbitrary: acc) auto

lemma parse_field_plain:
  "set n \<inter> set ''{}[.!:'' = {} \<Longrightarrow> parse_field (n @ CHR ''}'' # tail) = Some (n, None, [], tail)"
  by (simp add: parse_field_def scan_name_plain)

lemma render_field_plain:
  "plain_name n \<Longrightarrow> render_field ext lookup n None [] = Inr (lookup n)"
  by (auto simp: render_field_def plain_name_def)

lemma format_map_field:
  assumes "plain_name n"
  shows "format_map ext lookup (''{'' @ n @ ''}'' @ tail) = emit (lookup n) (format_map ext lookup tail)"
proof -
  from assms obtain c cs where n: "n = c # cs"
    by (cases n) (auto simp: plain_name_def)
  with assms have c: "c \<noteq> CHR ''{''"
    by (auto simp: plain_name_def)
  have clean: "set n \<inter> set ''{}[.!:'' = {}"
    using assms by (simp add: plain_name_def)
  have pf: "parse_field (c # cs @ CHR ''}'' # tail) = Some (c # cs, None, [], tail)"
    using parse_field_plain [OF clean, of tail] by (simp add: n)
  have rf: "render_field ext lookup (c # cs) None [] = Inr (lookup (c # cs))"
    using render_field_plain [OF assms, of ext lookup] by (simp add: n)
  show ?thesis
    using c by (simp add: n pf rf)
qed

lemma format_map_segment:
  "well_formed seg \<Longrightarrow>
   format_map ext lookup (seg_source seg @ tail) = emit (seg_value lookup seg) (format_map ext lookup tail)"
  using format_map_field [of _ ext lookup tail]
  by (cases seg) (simp_all add: format_map_lit)

lemma format_map_template:
  "list_all well_formed segs \<Longrightarrow>
   format_map ext lookup (template segs) = Inr (concat (map (seg_value lookup) segs))"
proof (induction segs)
  case Nil
  then show ?case by (simp add: template_def)
next
  case (Cons seg segs)
  then have "format_map ext lookup (seg_source seg @ template segs) =
      emit (seg_value lookup seg) (Inr (concat (map (seg_value lookup) segs)))"
    by (simp add: format_map_segment)
  then show ?case
    by (simp add: template_def emit_simps)
qed

lemma seg_value_unknown:
  "unknown seg \<Longrightarrow> seg_value (mapping w) seg = seg_value (\<lambda>name. []) seg"
  by (cases seg) (auto simp: mapping_def known_names_def)

text \<open>
  Claim C3, as the code has it. The claim holds for the templates built from literal
  text, doubled braces and fields \<open>{name}\<close> with a plain name that the mapping does not
  have: \<open>_format_message\<close> returns the template with every such field as the empty string
  (and every doubled brace as one brace), whatever Python does with conversions and format
  specs (\<open>ext\<close>). For \<open>None\<close> and for the empty template it returns \<open>None\<close>, and
  \<open>send_greetings\<close> sends nothing for \<open>None\<close>.
\<close>

theorem format_message_lenient:
  assumes "list_all well_formed segs" and "list_all unknown segs"
  shows "format_map ext (mapping w) (template segs) = Inr (concat (map (seg_value (\<lambda>name. [])) segs)) \<and>
         (template segs \<noteq> [] \<longrightarrow>
            format_message ext w (Some (template segs))
              = Inr (Some (concat (map (seg_value (\<lambda>name. [])) segs)))) \<and>
         format_message ext w None = Inr None \<and>
         format_message ext w (Some []) = Inr None \<and>
         send_greetings (w\<lparr>player_greeting := None, spectator_greeting := None\<rparr>) = []"
proof -
  have "map (seg_value (mapping w)) segs = map (seg_value (\<lambda>name. [])) segs"
    using assms(2) by (induction segs) (simp_all add: seg_value_unknown)
  with format_map_template [OF assms(1), of ext "mapping w"]
  have "format_map ext (mapping w) (template segs) = Inr (concat (map (seg_value (\<lambda>name. [])) segs))"
    by simp
  then show ?thesis
    by (simp add: format_message_def send_greetings_def)
qed

definition toy_template :: "segment list" where
  "toy_template =
     [Lit ''Good luck '', Field ''opponent_name'', Lit ''! '', Open_brace, Field ''un known'', Close_brace]"

theorem format_message_lenient_witness:
  "list_all well_formed toy_template \<and> list_all unknown toy_template \<and>
   template toy_template = ''Good luck {opponent_name}! {{{un known}}}'' \<and>
   format_message no_ext toy_session (Some ''Good luck {opponent_name}! {{{un known}}}'')
     = Inr (Some ''Good luck ! {}'')"
proof -
  have wf: "list_all well_formed toy_template"
    by (simp add: toy_template_def plain_name_def isdigit_def)
  have un: "list_all unknown toy_template"
    by (simp add: toy_template_def known_names_def)
  have src: "template toy_template = ''Good luck {opponent_name}! {{{un known}}}''"
    by (simp add: toy_template_def template_def)
  from format_message_lenient [OF wf un, of no_ext toy_session]
  have "format_message no_ext toy_session (Some (template toy_template))
      = Inr (Some (concat (map (seg_value (\<lambda>name. [])) toy_template)))"
    by (simp add: src)
  then have "format_message no_ext toy_session (Some ''Good luck {opponent_name}! {{{un known}}}'')
     = Inr (Some ''Good luck ! {}'')"
    by (simp add: src) (simp add: toy_template_def)
  with wf un src show ?thesis by blast
qed

text \<open>
  The claim as stated fails: a field whose name is a decimal number (and likewise the
  empty name) is a positional field, which \<open>format_map\<close> refuses with \<open>ValueError\<close> before
  it looks anything up, so the \<open>defaultdict\<close> does not help.
\<close>

theorem format_message_positional:
  "format_message no_ext toy_session (Some ''{0}'') = Inl ValueError"
  by (simp add: format_message_def parse_field_def render_field_def isdigit_def)

end
